theory Spec2Isabelle
  imports Main "HOL-Library.Sublist" "HOL-Library.Char_ord" "HOL-Library.List_Lexorder"
begin

section \<open>Python strings\<close>

text \<open>
  A Python \<open>str\<close> is modelled as a \<open>string\<close>, one \<open>char\<close> per code point (code
  points below 256). The line separator of every script is the constant
  \<^verbatim>\<open>CRLF = "\r\n"\<close>.
\<close>

abbreviation LF :: char where "LF \<equiv> CHR 0x0A"
abbreviation CR :: char where "CR \<equiv> CHR 0x0D"

definition CRLF :: string where
  "CRLF = [CR, LF]"

text \<open>
  \<^verbatim>\<open>s.replace(old, new)\<close>: every non-overlapping occurrence of \<open>old\<close>, found from the
  left, is replaced. For an empty \<open>old\<close> Python puts \<open>new\<close> before every character and
  at the end.
\<close>

function str_replace :: "string \<Rightarrow> string \<Rightarrow> string \<Rightarrow> string" where
  "str_replace old new [] = (if old = [] then new else [])"
| "str_replace old new (c # cs) =
     (if old = [] then new @ concat (map (\<lambda>x. x # new) (c # cs))
      else if prefix old (c # cs) then new @ str_replace old new (drop (length old) (c # cs))
      else c # str_replace old new cs)"
  by pat_completeness auto
termination
  by (relation "measure (\<lambda>(old, new, s). length s)") (auto simp: neq_Nil_conv)

text \<open>\<^verbatim>\<open>sep.join(xs)\<close>.\<close>

fun str_join :: "string \<Rightarrow> string list \<Rightarrow> string" where
  "str_join sep [] = []"
| "str_join sep [x] = x"
| "str_join sep (x # y # ys) = x @ sep @ str_join sep (y # ys)"

section \<open>Escaping of property values (ISO-NE and SPP)\<close>

text \<open>
  \<^verbatim>\<open>
  def ics_escape(text: str) -> str:
      return text.replace("\\", "\\\\").replace(";", "\\;").replace(",", "\\,").replace("\n", "\\n")
  \<close>
  The function is the same in \<^verbatim>\<open>fetch_isone_calendar.py\<close> and \<^verbatim>\<open>fetch_spp_calendar.py\<close>.
\<close>

definition ics_escape :: "string \<Rightarrow> string" where
  "ics_escape text =
     str_replace [LF] [CHR 0x5C, CHR ''n'']
       (str_replace '','' [CHR 0x5C, CHR '','']
         (str_replace '';'' [CHR 0x5C, CHR '';'']
           (str_replace [CHR 0x5C] [CHR 0x5C, CHR 0x5C] text)))"

text \<open>
  Modelled from the spec: the inverse unescape of the escaping round-trip property. The
  repository has no unescape function; this one reads a backslash together with the
  character after it.
\<close>

fun ics_unescape :: "string \<Rightarrow> string" where
  "ics_unescape [] = []"
| "ics_unescape [c] = [c]"
| "ics_unescape (c # d # cs) =
     (if c = CHR 0x5C then
        (if d = CHR ''n'' then LF # ics_unescape cs else d # ics_unescape cs)
      else c # ics_unescape (d # cs))"

text \<open>What the four replacements do to one character.\<close>

definition escape_char :: "char \<Rightarrow> string" where
  "escape_char c =
     (if c = CHR 0x5C then [CHR 0x5C, CHR 0x5C]
      else if c = CHR '';'' then [CHR 0x5C, CHR '';'']
      else if c = CHR '','' then [CHR 0x5C, CHR '','']
      else if c = LF then [CHR 0x5C, CHR ''n'']
      else [c])"

section \<open>Further string operations\<close>

text \<open>
  \<^verbatim>\<open>s.strip()\<close> removes leading and trailing whitespace; these are the code points
  below 256 for which \<^verbatim>\<open>str.isspace\<close> holds.
\<close>

definition py_isspace :: "char \<Rightarrow> bool" where
  "py_isspace c \<longleftrightarrow>
     c \<in> set [CHR 0x09, LF, CHR 0x0B, CHR 0x0C, CR, CHR 0x1C, CHR 0x1D, CHR 0x1E,
               CHR 0x1F, CHR 0x20, CHR 0x85, CHR 0xA0]"

definition str_strip :: "string \<Rightarrow> string" where
  "str_strip s = rev (dropWhile py_isspace (rev (dropWhile py_isspace s)))"

text \<open>
  \<^verbatim>\<open>s.split(sep)\<close> for a non-empty separator (every call site passes a non-empty
  literal; Python raises \<open>ValueError\<close> for an empty one).
\<close>

function str_split :: "string \<Rightarrow> string \<Rightarrow> string list" where
  "str_split sep [] = [[]]"
| "str_split sep (c # cs) =
     (if sep \<noteq> [] \<and> prefix sep (c # cs) then [] # str_split sep (drop (length sep) (c # cs))
      else (case str_split sep cs of
              [] \<Rightarrow> [[c]]
            | l # ls \<Rightarrow> (c # l) # ls))"
  by pat_completeness auto
termination
  by (relation "measure (\<lambda>(sep, s). length s)") (auto simp: neq_Nil_conv)

text \<open>
  The first occurrence of \<open>pat\<close> in a text: the text before it and the text after it.
  It is the search behind \<^verbatim>\<open>pat in s\<close>, \<^verbatim>\<open>s.count(pat)\<close> and the regular expression of
  the validator.
\<close>

fun find_sub :: "string \<Rightarrow> string \<Rightarrow> (string \<times> string) option" where
  "find_sub pat [] = (if pat = [] then Some ([], []) else None)"
| "find_sub pat (c # cs) =
     (if prefix pat (c # cs) then Some ([], drop (length pat) (c # cs))
      else map_option (\<lambda>(a, b). (c # a, b)) (find_sub pat cs))"

section \<open>The block parser\<close>

text \<open>
  Every extraction function starts with
  \<^verbatim>\<open>lines = ics_text.replace("\r\n", "\n").replace("\r", "\n").split("\n")\<close>.
\<close>

definition normalized_lines :: "string \<Rightarrow> string list" where
  "normalized_lines ics_text =
     str_split [LF] (str_replace [CR] [LF] (str_replace [CR, LF] [LF] ics_text))"

text \<open>
  \<^verbatim>\<open>
  def extract_vevents(ics_text: str) -> list[str]:
      lines = ...
      vevents = []
      buf = []
      inside = False
      for line in lines:
          if line.strip() == "BEGIN:VEVENT":
              inside = True
              buf = []
          if inside:
              buf.append(line)
          if inside and line.strip() == "END:VEVENT":
              vevents.append(CRLF.join(buf))
              inside = False
      return vevents
  \<close>
  (\<^verbatim>\<open>fetch_ercot_calendar.py\<close>, \<^verbatim>\<open>fetch_pjm_calendar.py\<close>, \<^verbatim>\<open>fetch_nyiso_calendar.py\<close>).
  The loop carries \<open>vevents\<close>, \<open>buf\<close> and \<open>inside\<close>.
\<close>

fun extract_vevents_loop ::
  "string list \<Rightarrow> string list \<Rightarrow> bool \<Rightarrow> string list \<Rightarrow> string list" where
  "extract_vevents_loop vevents buf inside [] = vevents"
| "extract_vevents_loop vevents buf inside (line # lines) =
     (let inside1 = (if str_strip line = ''BEGIN:VEVENT'' then True else inside);
          buf1 = (if str_strip line = ''BEGIN:VEVENT'' then [] else buf);
          buf2 = (if inside1 then buf1 @ [line] else buf1)
      in if inside1 \<and> str_strip line = ''END:VEVENT''
         then extract_vevents_loop (vevents @ [str_join CRLF buf2]) buf2 False lines
         else extract_vevents_loop vevents buf2 inside1 lines)"

definition extract_vevents :: "string \<Rightarrow> string list" where
  "extract_vevents ics_text = extract_vevents_loop [] [] False (normalized_lines ics_text)"

text \<open>
  \<^verbatim>\<open>
  def extract_vevent(ics_text: str) -> str | None:
      lines = ...
      buf = []
      inside = False
      for line in lines:
          if line.strip() == "BEGIN:VEVENT":
              inside = True
          if inside:
              buf.append(line)
          if inside and line.strip() == "END:VEVENT":
              return CRLF.join(buf)
      return None
  \<close>
  (\<^verbatim>\<open>fetch_caiso_calendar.py\<close>, \<^verbatim>\<open>fetch_miso_calendar.py\<close>). A begin marker does not
  reset \<open>buf\<close> here.
\<close>

fun extract_vevent_loop :: "string list \<Rightarrow> bool \<Rightarrow> string list \<Rightarrow> string option" where
  "extract_vevent_loop buf inside [] = None"
| "extract_vevent_loop buf inside (line # lines) =
     (let inside1 = (if str_strip line = ''BEGIN:VEVENT'' then True else inside);
          buf1 = (if inside1 then buf @ [line] else buf)
      in if inside1 \<and> str_strip line = ''END:VEVENT''
         then Some (str_join CRLF buf1)
         else extract_vevent_loop buf1 inside1 lines)"

definition extract_vevent :: "string \<Rightarrow> string option" where
  "extract_vevent ics_text = extract_vevent_loop [] False (normalized_lines ics_text)"

text \<open>
  The blocks a text has, read off its lines: a line is a begin marker or an end marker
  when its trimmed content is the marker. A begin-marker line is terminated when the
  next marker line after it is an end marker; its block is the lines from the one to the
  other.
\<close>

definition is_begin :: "string \<Rightarrow> bool" where
  "is_begin line \<longleftrightarrow> str_strip line = ''BEGIN:VEVENT''"

definition is_end :: "string \<Rightarrow> bool" where
  "is_end line \<longleftrightarrow> str_strip line = ''END:VEVENT''"

definition is_marker :: "string \<Rightarrow> bool" where
  "is_marker line \<longleftrightarrow> is_begin line \<or> is_end line"

definition block_from :: "string \<Rightarrow> string list \<Rightarrow> string list" where
  "block_from b rest =
     (case dropWhile (\<lambda>l. \<not> is_marker l) rest of
        [] \<Rightarrow> []
      | e # _ \<Rightarrow> if is_end e
                 then [str_join CRLF (b # takeWhile (\<lambda>l. \<not> is_marker l) rest @ [e])]
                 else [])"

fun terminated_blocks :: "string list \<Rightarrow> string list" where
  "terminated_blocks [] = []"
| "terminated_blocks (l # ls) =
     (if is_begin l then block_from l ls else []) @ terminated_blocks ls"

text \<open>
  The span from the first begin-marker line to the first end-marker line after it.
\<close>

definition first_span :: "string list \<Rightarrow> string option" where
  "first_span ls =
     (case dropWhile (\<lambda>l. \<not> is_begin l) ls of
        [] \<Rightarrow> None
      | b # rest \<Rightarrow>
          (case dropWhile (\<lambda>l. \<not> is_end l) rest of
             [] \<Rightarrow> None
           | e # _ \<Rightarrow> Some (str_join CRLF (b # takeWhile (\<lambda>l. \<not> is_end l) rest @ [e]))))"

text \<open>
  What an open block still yields from the lines to come (all-blocks scan), and what the
  first-block scan yields once it is inside.
\<close>

definition open_block :: "bool \<Rightarrow> string list \<Rightarrow> string list \<Rightarrow> string list" where
  "open_block inside buf ls =
     (if inside then
        (case dropWhile (\<lambda>l. \<not> is_marker l) ls of
           [] \<Rightarrow> []
         | e # _ \<Rightarrow> if is_end e
                    then [str_join CRLF (buf @ takeWhile (\<lambda>l. \<not> is_marker l) ls @ [e])]
                    else [])
      else [])"

definition open_span :: "string list \<Rightarrow> string list \<Rightarrow> string option" where
  "open_span buf ls =
     (case dropWhile (\<lambda>l. \<not> is_end l) ls of
        [] \<Rightarrow> None
      | e # _ \<Rightarrow> Some (str_join CRLF (buf @ takeWhile (\<lambda>l. \<not> is_end l) ls @ [e])))"

text \<open>
  No further begin-marker line stands between the first begin-marker line and the first
  end-marker line after it.
\<close>

definition single_begin :: "string list \<Rightarrow> bool" where
  "single_begin ls =
     (case dropWhile (\<lambda>l. \<not> is_begin l) ls of
        [] \<Rightarrow> True
      | b # rest \<Rightarrow> list_all (\<lambda>l. \<not> is_begin l) (takeWhile (\<lambda>l. \<not> is_end l) rest))"

section \<open>Identity and start date of a block (PJM, NYISO)\<close>

text \<open>
  \<^verbatim>\<open>
  def extract_uid(vevent: str) -> str | None:
      for line in vevent.split(CRLF):
          if line.startswith("UID:"):
              return line[4:].strip()
      return None
  \<close>
\<close>

fun extract_uid_loop :: "string list \<Rightarrow> string option" where
  "extract_uid_loop [] = None"
| "extract_uid_loop (line # lines) =
     (if prefix ''UID:'' line then Some (str_strip (drop 4 line)) else extract_uid_loop lines)"

definition extract_uid :: "string \<Rightarrow> string option" where
  "extract_uid vevent = extract_uid_loop (str_split CRLF vevent)"

text \<open>
  \<^verbatim>\<open>re.match(r"DTSTART[^:]*:(\d{8})", line)\<close>: the line starts with \<open>DTSTART\<close>, the first
  colon after that is followed by eight decimal digits, and the group is these digits.
  (\<open>[^:]*\<close> cannot pass a colon, so only the first colon can match.)
\<close>

definition is_digit :: "char \<Rightarrow> bool" where
  "is_digit c \<longleftrightarrow> CHR ''0'' \<le> c \<and> c \<le> CHR ''9''"

definition match_dtstart :: "string \<Rightarrow> string option" where
  "match_dtstart line =
     (if prefix ''DTSTART'' line then
        (case dropWhile (\<lambda>c. c \<noteq> CHR '':'') (drop 7 line) of
           [] \<Rightarrow> None
         | _ # ds \<Rightarrow> if 8 \<le> length ds \<and> list_all is_digit (take 8 ds)
                     then Some (take 8 ds) else None)
      else None)"

text \<open>
  \<^verbatim>\<open>
  def extract_dtstart_date(vevent: str) -> str | None:
      for line in vevent.split(CRLF):
          m = re.match(r"DTSTART[^:]*:(\d{8})", line)
          if m:
              return m.group(1)
      return None
  \<close>
\<close>

fun extract_dtstart_date_loop :: "string list \<Rightarrow> string option" where
  "extract_dtstart_date_loop [] = None"
| "extract_dtstart_date_loop (line # lines) =
     (case match_dtstart line of
        Some d \<Rightarrow> Some d
      | None \<Rightarrow> extract_dtstart_date_loop lines)"

definition extract_dtstart_date :: "string \<Rightarrow> string option" where
  "extract_dtstart_date vevent = extract_dtstart_date_loop (str_split CRLF vevent)"

text \<open>Truth value of a \<^verbatim>\<open>str | None\<close>: \<open>None\<close> and the empty string are false.\<close>

definition truthy :: "string option \<Rightarrow> bool" where
  "truthy v \<longleftrightarrow> (case v of None \<Rightarrow> False | Some s \<Rightarrow> s \<noteq> [])"

section \<open>The merge loops of NYISO and PJM\<close>

text \<open>
  \<^verbatim>\<open>
  def extract_vtimezone(ics_text: str) -> str | None:
      lines = ...
      buf = []
      inside = False
      for line in lines:
          if line.strip() == "BEGIN:VTIMEZONE":
              inside = True
              buf = []
          if inside:
              buf.append(line)
          if inside and line.strip() == "END:VTIMEZONE":
              return CRLF.join(buf)
      return None
  \<close>
\<close>

fun extract_vtimezone_loop :: "string list \<Rightarrow> bool \<Rightarrow> string list \<Rightarrow> string option" where
  "extract_vtimezone_loop buf inside [] = None"
| "extract_vtimezone_loop buf inside (line # lines) =
     (let inside1 = (if str_strip line = ''BEGIN:VTIMEZONE'' then True else inside);
          buf1 = (if str_strip line = ''BEGIN:VTIMEZONE'' then [] else buf);
          buf2 = (if inside1 then buf1 @ [line] else buf1)
      in if inside1 \<and> str_strip line = ''END:VTIMEZONE''
         then Some (str_join CRLF buf2)
         else extract_vtimezone_loop buf2 inside1 lines)"

definition extract_vtimezone :: "string \<Rightarrow> string option" where
  "extract_vtimezone ics_text = extract_vtimezone_loop [] False (normalized_lines ics_text)"

text \<open>
  The body of the inner loop of \<^verbatim>\<open>main\<close> in \<^verbatim>\<open>fetch_nyiso_calendar.py\<close>, on the pair
  \<open>(seen_uids, all_vevents)\<close>:
  \<^verbatim>\<open>
  for ve in vevents:
      uid = extract_uid(ve)
      if uid and uid not in seen_uids:
          seen_uids.add(uid)
          all_vevents.append(ve)
  \<close>
\<close>

definition nyiso_step :: "string set \<times> string list \<Rightarrow> string \<Rightarrow> string set \<times> string list" where
  "nyiso_step st ve =
     (let uid = extract_uid ve in
      if truthy uid \<and> the uid \<notin> fst st then (insert (the uid) (fst st), snd st @ [ve])
      else st)"

text \<open>
  The outer loop: one entry per feed, the result of \<^verbatim>\<open>fetch_ics_feed\<close> (\<open>None\<close> when the
  download failed). The state is \<open>(seen_uids, all_vevents)\<close> and \<open>vtimezone\<close>.
  \<^verbatim>\<open>
  for name, url in NYISO_ICS_FEEDS.items():
      ics_text = fetch_ics_feed(url)
      if not ics_text:
          continue
      if vtimezone is None:
          vtimezone = extract_vtimezone(ics_text)
      vevents = extract_vevents(ics_text)
      for ve in vevents: ...
  \<close>
\<close>

definition nyiso_feed ::
  "(string set \<times> string list) \<times> string option \<Rightarrow> string option \<Rightarrow>
   (string set \<times> string list) \<times> string option" where
  "nyiso_feed st ics_text =
     (if \<not> truthy ics_text then st
      else (foldl nyiso_step (fst st) (extract_vevents (the ics_text)),
            (if snd st = None then extract_vtimezone (the ics_text) else snd st)))"

definition nyiso_merge ::
  "string option list \<Rightarrow> (string set \<times> string list) \<times> string option" where
  "nyiso_merge feeds = foldl nyiso_feed (({}, []), None) feeds"

text \<open>
  The inner loop of \<^verbatim>\<open>main\<close> in \<^verbatim>\<open>fetch_pjm_calendar.py\<close>; \<open>continue\<close> leaves the state as
  it is. Strings are compared as Python compares them, character by character.
  \<^verbatim>\<open>
  for ve in vevents:
      uid = extract_uid(ve)
      dtstart = extract_dtstart_date(ve)
      if uid and uid not in seen_uids:
          if dtstart and not (start_yyyymmdd <= dtstart < end_yyyymmdd):
              continue
          seen_uids.add(uid)
          all_vevents.append(ve)
  \<close>
\<close>

definition pjm_step ::
  "string \<Rightarrow> string \<Rightarrow> string set \<times> string list \<Rightarrow> string \<Rightarrow> string set \<times> string list" where
  "pjm_step start_yyyymmdd end_yyyymmdd st ve =
     (let uid = extract_uid ve; dtstart = extract_dtstart_date ve in
      if truthy uid \<and> the uid \<notin> fst st then
        (if truthy dtstart \<and> \<not> (start_yyyymmdd \<le> the dtstart \<and> the dtstart < end_yyyymmdd)
         then st
         else (insert (the uid) (fst st), snd st @ [ve]))
      else st)"

definition pjm_feed ::
  "string \<Rightarrow> string \<Rightarrow> string set \<times> string list \<Rightarrow> string option \<Rightarrow> string set \<times> string list" where
  "pjm_feed start_yyyymmdd end_yyyymmdd st ics_text =
     (if \<not> truthy ics_text then st
      else foldl (pjm_step start_yyyymmdd end_yyyymmdd) st (extract_vevents (the ics_text)))"

definition pjm_merge :: "string \<Rightarrow> string \<Rightarrow> string option list \<Rightarrow> string set \<times> string list" where
  "pjm_merge start_yyyymmdd end_yyyymmdd feeds =
     foldl (pjm_feed start_yyyymmdd end_yyyymmdd) ({}, []) feeds"

text \<open>
  The sequence of (identity, payload) pairs the loops deduplicate: the blocks of all
  fetched feeds in order, each with its identity; a block with no identity, or an empty
  one, is no pair.
\<close>

definition fetched_vevents :: "string option list \<Rightarrow> string list" where
  "fetched_vevents feeds = concat (map (\<lambda>f. if truthy f then extract_vevents (the f) else []) feeds)"

definition uid_pairs :: "string list \<Rightarrow> (string \<times> string) list" where
  "uid_pairs ves =
     concat (map (\<lambda>ve. if truthy (extract_uid ve) then [(the (extract_uid ve), ve)] else []) ves)"

text \<open>
  The payloads whose identity occurs in no earlier pair, in the order of the sequence.
\<close>

definition first_occurrences :: "('i \<times> 'p) list \<Rightarrow> 'p list" where
  "first_occurrences ps =
     map (\<lambda>i. snd (ps ! i))
       (filter (\<lambda>i. fst (ps ! i) \<notin> fst ` set (take i ps)) [0..<length ps])"

text \<open>The blocks the date window of PJM lets through.\<close>

definition in_window :: "string \<Rightarrow> string \<Rightarrow> string \<Rightarrow> bool" where
  "in_window start_yyyymmdd end_yyyymmdd ve \<longleftrightarrow>
     \<not> (truthy (extract_dtstart_date ve) \<and>
        \<not> (start_yyyymmdd \<le> the (extract_dtstart_date ve) \<and>
           the (extract_dtstart_date ve) < end_yyyymmdd))"

text \<open>
  What the inner loop keeps of a sequence of pairs when \<open>seen\<close> holds the identities
  met so far.
\<close>

fun keep_new :: "'i set \<Rightarrow> ('i \<times> 'p) list \<Rightarrow> 'p list" where
  "keep_new seen [] = []"
| "keep_new seen ((u, p) # ps) =
     (if u \<in> seen then keep_new seen ps else p # keep_new (insert u seen) ps)"

section \<open>The document builder\<close>

text \<open>
  \<^verbatim>\<open>
  def build_merged_ics(vevents: list[str]) -> str:
      header = CRLF.join([
          "BEGIN:VCALENDAR",
          "VERSION:2.0",
          "PRODID:-//CAISO Calendar Sync//EN",
          "CALSCALE:GREGORIAN",
          "METHOD:PUBLISH",
          "X-WR-CALNAME:CAISO Events",
          "X-WR-TIMEZONE:America/Los_Angeles",
      ])
      footer = "END:VCALENDAR"
      body = (CRLF).join(vevents)
      return header + CRLF + body + CRLF + footer + CRLF
  \<close>
  (\<^verbatim>\<open>fetch_caiso_calendar.py\<close>). The function of \<^verbatim>\<open>fetch_pjm_calendar.py\<close> differs in the
  producer, the display name and the display time zone only.
\<close>

definition caiso_build_merged_ics :: "string list \<Rightarrow> string" where
  "caiso_build_merged_ics vevents =
     (let header = str_join CRLF
            [''BEGIN:VCALENDAR'',
             ''VERSION:2.0'',
             ''PRODID:-//CAISO Calendar Sync//EN'',
             ''CALSCALE:GREGORIAN'',
             ''METHOD:PUBLISH'',
             ''X-WR-CALNAME:CAISO Events'',
             ''X-WR-TIMEZONE:America/Los_Angeles''];
          footer = ''END:VCALENDAR'';
          body = str_join CRLF vevents
      in header @ CRLF @ body @ CRLF @ footer @ CRLF)"

definition pjm_build_merged_ics :: "string list \<Rightarrow> string" where
  "pjm_build_merged_ics vevents =
     (let header = str_join CRLF
            [''BEGIN:VCALENDAR'',
             ''VERSION:2.0'',
             ''PRODID:-//PJM Calendar Sync//EN'',
             ''CALSCALE:GREGORIAN'',
             ''METHOD:PUBLISH'',
             ''X-WR-CALNAME:PJM Events'',
             ''X-WR-TIMEZONE:America/New_York''];
          footer = ''END:VCALENDAR'';
          body = str_join CRLF vevents
      in header @ CRLF @ body @ CRLF @ footer @ CRLF)"

text \<open>
  \<^verbatim>\<open>
  def build_merged_ics(vevents: list[str], vtimezone: str | None) -> str:
      header = CRLF.join([... "PRODID:-//NYISO Calendar Sync//EN", ...])
      footer = "END:VCALENDAR"
      parts = [header]
      if vtimezone:
          parts.append(vtimezone)
      parts.extend(vevents)
      parts.append(footer)
      return CRLF.join(parts) + CRLF
  \<close>
  (\<^verbatim>\<open>fetch_nyiso_calendar.py\<close>).
\<close>

definition nyiso_build_merged_ics :: "string list \<Rightarrow> string option \<Rightarrow> string" where
  "nyiso_build_merged_ics vevents vtimezone =
     (let header = str_join CRLF
            [''BEGIN:VCALENDAR'',
             ''VERSION:2.0'',
             ''PRODID:-//NYISO Calendar Sync//EN'',
             ''CALSCALE:GREGORIAN'',
             ''METHOD:PUBLISH'',
             ''X-WR-CALNAME:NYISO Events'',
             ''X-WR-TIMEZONE:America/New_York''];
          footer = ''END:VCALENDAR'';
          parts = [header] @ (if truthy vtimezone then [the vtimezone] else []) @ vevents @ [footer]
      in str_join CRLF parts @ CRLF)"

text \<open>
  The end of \<^verbatim>\<open>main\<close>: with no event left the script exits without writing a document
  (\<open>None\<close>), otherwise the built document is written.
  \<^verbatim>\<open>
  if not all_vevents:
      print("No VEVENTs extracted.")
      sys.exit(1)
  merged = build_merged_ics(all_vevents, vtimezone)
  \<close>
\<close>

definition nyiso_main :: "string option list \<Rightarrow> string option" where
  "nyiso_main feeds =
     (let all_vevents = snd (fst (nyiso_merge feeds)); vtimezone = snd (nyiso_merge feeds)
      in if all_vevents = [] then None else Some (nyiso_build_merged_ics all_vevents vtimezone))"

definition pjm_main :: "string \<Rightarrow> string \<Rightarrow> string option list \<Rightarrow> string option" where
  "pjm_main start_yyyymmdd end_yyyymmdd feeds =
     (let all_vevents = snd (pjm_merge start_yyyymmdd end_yyyymmdd feeds)
      in if all_vevents = [] then None else Some (pjm_build_merged_ics all_vevents))"

section \<open>The validator\<close>

text \<open>
  \<^verbatim>\<open>s.count(pat)\<close>: the number of non-overlapping occurrences, found from the left (for an
  empty \<open>pat\<close> Python answers \<open>len(s) + 1\<close>).
\<close>

function str_count :: "string \<Rightarrow> string \<Rightarrow> nat" where
  "str_count pat [] = (if pat = [] then 1 else 0)"
| "str_count pat (c # cs) =
     (if pat = [] then length (c # cs) + 1
      else if prefix pat (c # cs) then 1 + str_count pat (drop (length pat) (c # cs))
      else str_count pat cs)"
  by pat_completeness auto
termination
  by (relation "measure (\<lambda>(pat, s). length s)") (auto simp: neq_Nil_conv)

text \<open>
  \<^verbatim>\<open>re.findall(r"BEGIN:VEVENT.*?END:VEVENT", text, re.DOTALL)\<close>: the leftmost
  \<open>BEGIN:VEVENT\<close>, then as little as possible up to the next \<open>END:VEVENT\<close>; the search goes on
  after the match. When no \<open>END:VEVENT\<close> follows, no later start can match either.
\<close>

lemma find_sub_Some: "find_sub pat s = Some (a, b) \<Longrightarrow> s = a @ pat @ b"
proof (induction s arbitrary: a)
  case Nil
  then show ?case by (simp split: if_splits)
next
  case (Cons c cs)
  show ?case
  proof (cases "prefix pat (c # cs)")
    case True
    with Cons.prems have "a = []" "b = drop (length pat) (c # cs)" by simp_all
    moreover from True have "c # cs = pat @ drop (length pat) (c # cs)"
      by (metis append_eq_conv_conj prefixE)
    ultimately show ?thesis by simp
  next
    case False
    with Cons.prems obtain a' where "find_sub pat cs = Some (a', b)" "a = c # a'"
      by (auto split: option.splits)
    with Cons.IH show ?thesis by simp
  qed
qed

function re_findall_vevent :: "string \<Rightarrow> string list" where
  "re_findall_vevent text =
     (case find_sub ''BEGIN:VEVENT'' text of
        None \<Rightarrow> []
      | Some (before, after_begin) \<Rightarrow>
          (case find_sub ''END:VEVENT'' after_begin of
             None \<Rightarrow> []
           | Some (mid, rest) \<Rightarrow>
               (''BEGIN:VEVENT'' @ mid @ ''END:VEVENT'') # re_findall_vevent rest))"
  by pat_completeness auto
termination
proof (relation "measure length")
  show "wf (measure length)" by simp
next
  fix t :: string and x2 before after_begin x2a mid rest
  assume "find_sub ''BEGIN:VEVENT'' t = Some x2" "(before, after_begin) = x2"
    "find_sub ''END:VEVENT'' after_begin = Some x2a" "(mid, rest) = x2a"
  then have "t = before @ ''BEGIN:VEVENT'' @ after_begin"
    and "after_begin = mid @ ''END:VEVENT'' @ rest"
    by (auto dest: find_sub_Some)
  then have "length rest < length t" by simp
  then show "(rest, t) \<in> measure length" by simp
qed

declare re_findall_vevent.simps [simp del]

text \<open>\<^verbatim>\<open>f"{n}"\<close> for a count: the decimal numeral.\<close>

function str_of_nat :: "nat \<Rightarrow> string" where
  "str_of_nat n =
     (if n < 10 then [''0123456789'' ! n]
      else str_of_nat (n div 10) @ [''0123456789'' ! (n mod 10)])"
  by pat_completeness auto
termination
  by (relation "measure id") auto

declare str_of_nat.simps [simp del]

text \<open>
  The body of the loop of \<^verbatim>\<open>validate_feeds.py\<close> for one downloaded text:
  \<^verbatim>\<open>
  events = text.count("BEGIN:VEVENT")
  events_end = text.count("END:VEVENT")
  has_vcal_start = text.strip().startswith("BEGIN:VCALENDAR")
  has_vcal_end = text.strip().endswith("END:VCALENDAR")
  has_version = "VERSION:2.0" in text
  has_prodid = "PRODID:" in text
  vevent_blocks = re.findall(r"BEGIN:VEVENT.*?END:VEVENT", text, re.DOTALL)
  missing_dtstart = sum(1 for v in vevent_blocks if "DTSTART" not in v)
  missing_summary = sum(1 for v in vevent_blocks if "SUMMARY" not in v)
  \<close>
\<close>

definition events :: "string \<Rightarrow> nat" where
  "events text = str_count ''BEGIN:VEVENT'' text"

definition events_end :: "string \<Rightarrow> nat" where
  "events_end text = str_count ''END:VEVENT'' text"

definition has_vcal_start :: "string \<Rightarrow> bool" where
  "has_vcal_start text \<longleftrightarrow> prefix ''BEGIN:VCALENDAR'' (str_strip text)"

definition has_vcal_end :: "string \<Rightarrow> bool" where
  "has_vcal_end text \<longleftrightarrow> suffix ''END:VCALENDAR'' (str_strip text)"

definition has_version :: "string \<Rightarrow> bool" where
  "has_version text \<longleftrightarrow> sublist ''VERSION:2.0'' text"

definition has_prodid :: "string \<Rightarrow> bool" where
  "has_prodid text \<longleftrightarrow> sublist ''PRODID:'' text"

definition vevent_blocks :: "string \<Rightarrow> string list" where
  "vevent_blocks text = re_findall_vevent text"

definition missing_dtstart :: "string \<Rightarrow> nat" where
  "missing_dtstart text = length (filter (\<lambda>v. \<not> sublist ''DTSTART'' v) (vevent_blocks text))"

definition missing_summary :: "string \<Rightarrow> nat" where
  "missing_summary text = length (filter (\<lambda>v. \<not> sublist ''SUMMARY'' v) (vevent_blocks text))"

text \<open>
  \<^verbatim>\<open>
  issues = []
  if not has_vcal_start:
      issues.append("missing BEGIN:VCALENDAR")
  if not has_vcal_end:
      issues.append("missing END:VCALENDAR")
  if not has_version:
      issues.append("missing VERSION:2.0")
  if not has_prodid:
      issues.append("missing PRODID")
  if events != events_end:
      issues.append(f"VEVENT mismatch: {events} begin vs {events_end} end")
  if missing_dtstart:
      issues.append(f"{missing_dtstart} events missing DTSTART")
  if missing_summary:
      issues.append(f"{missing_summary} events missing SUMMARY")
  status = "PASS" if not issues else "FAIL"
  detail = " | ".join(issues) if issues else ""
  \<close>
\<close>

definition issues :: "string \<Rightarrow> string list" where
  "issues text =
     (let i0 = [];
          i1 = (if \<not> has_vcal_start text then i0 @ [''missing BEGIN:VCALENDAR''] else i0);
          i2 = (if \<not> has_vcal_end text then i1 @ [''missing END:VCALENDAR''] else i1);
          i3 = (if \<not> has_version text then i2 @ [''missing VERSION:2.0''] else i2);
          i4 = (if \<not> has_prodid text then i3 @ [''missing PRODID''] else i3);
          i5 = (if events text \<noteq> events_end text
                then i4 @ [''VEVENT mismatch: '' @ str_of_nat (events text) @ '' begin vs '' @
                           str_of_nat (events_end text) @ '' end'']
                else i4);
          i6 = (if missing_dtstart text \<noteq> 0
                then i5 @ [str_of_nat (missing_dtstart text) @ '' events missing DTSTART'']
                else i5);
          i7 = (if missing_summary text \<noteq> 0
                then i6 @ [str_of_nat (missing_summary text) @ '' events missing SUMMARY'']
                else i6)
      in i7)"

definition status :: "string \<Rightarrow> string" where
  "status text = (if issues text = [] then ''PASS'' else ''FAIL'')"

definition detail :: "string \<Rightarrow> string" where
  "detail text = (if issues text \<noteq> [] then str_join '' | '' (issues text) else [])"

section \<open>The JSON adapters (ISO-NE and SPP)\<close>

text \<open>
  A parsed JSON event is a Python \<open>dict\<close> from field names to values. The values
  modelled are \<open>None\<close>, booleans, integers and strings; what the adapters do with a
  value depends on its type. Exceptions are results: \<open>Inl\<close> of the exception raised.
\<close>

datatype json = JNull | JBool bool | JInt int | JStr string

datatype py_error = KeyError | AttributeError | TypeError

type_synonym event = "string \<rightharpoonup> json"

text \<open>Truth value of a Python value, as \<^verbatim>\<open>if x\<close> and \<^verbatim>\<open>x or y\<close> take it.\<close>

fun py_truthy :: "json \<Rightarrow> bool" where
  "py_truthy JNull = False"
| "py_truthy (JBool b) = b"
| "py_truthy (JInt i) = (i \<noteq> 0)"
| "py_truthy (JStr s) = (s \<noteq> [])"

text \<open>\<^verbatim>\<open>event.get(key, default)\<close> and \<^verbatim>\<open>event[key]\<close>.\<close>

definition dict_get :: "event \<Rightarrow> string \<Rightarrow> json \<Rightarrow> json" where
  "dict_get event key dflt = (case event key of None \<Rightarrow> dflt | Some v \<Rightarrow> v)"

definition dict_item :: "event \<Rightarrow> string \<Rightarrow> py_error + json" where
  "dict_item event key = (case event key of None \<Rightarrow> Inl KeyError | Some v \<Rightarrow> Inr v)"

text \<open>\<^verbatim>\<open>x or ""\<close>.\<close>

definition or_empty :: "json \<Rightarrow> json" where
  "or_empty x = (if py_truthy x then x else JStr [])"

text \<open>\<^verbatim>\<open>f"{x}"\<close>.\<close>

fun py_format :: "json \<Rightarrow> string" where
  "py_format JNull = ''None''"
| "py_format (JBool b) = (if b then ''True'' else ''False'')"
| "py_format (JInt i) = (if i < 0 then ''-'' @ str_of_nat (nat (- i)) else str_of_nat (nat i))"
| "py_format (JStr s) = s"

text \<open>
  The receiver of a string method (\<^verbatim>\<open>.replace\<close>, \<^verbatim>\<open>.split\<close>, \<^verbatim>\<open>.startswith\<close>): a value
  of another type has no such attribute.
\<close>

fun str_method :: "json \<Rightarrow> py_error + string" where
  "str_method (JStr s) = Inr s"
| "str_method _ = Inl AttributeError"

text \<open>The argument of \<^verbatim>\<open>re.sub\<close> and an item of \<^verbatim>\<open>", ".join\<close>: a string, or \<open>TypeError\<close>.\<close>

fun str_arg :: "json \<Rightarrow> py_error + string" where
  "str_arg (JStr s) = Inr s"
| "str_arg _ = Inl TypeError"

definition bind_err :: "'e + 'a \<Rightarrow> ('a \<Rightarrow> 'e + 'b) \<Rightarrow> 'e + 'b" where
  "bind_err m f = (case m of Inl e \<Rightarrow> Inl e | Inr x \<Rightarrow> f x)"

text \<open>
  \<^verbatim>\<open>
  def parse_dt(dt_str: str) -> str:
      dt_str = dt_str.split(".")[0]  # strip fractional seconds
      return dt_str.replace("-", "").replace(":", "").replace("T", "T")
  \<close>
  (\<^verbatim>\<open>fetch_spp_calendar.py\<close>; \<open>split\<close> never returns an empty list).
\<close>

definition parse_dt :: "string \<Rightarrow> string" where
  "parse_dt dt_str =
     (let dt_str1 = hd (str_split ''.'' dt_str)
      in str_replace ''T'' ''T'' (str_replace '':'' [] (str_replace ''-'' [] dt_str1)))"

text \<open>
  The conversion of \<^verbatim>\<open>build_vevent\<close> in \<^verbatim>\<open>fetch_isone_calendar.py\<close>:
  \<^verbatim>\<open>start_str.replace("-", "").replace(":", "").replace("T", "T") + "Z"\<close>.
\<close>

definition isone_dt :: "string \<Rightarrow> string" where
  "isone_dt s = str_replace ''T'' ''T'' (str_replace '':'' [] (str_replace ''-'' [] s)) @ ''Z''"

definition ISONE_BASE :: string where
  "ISONE_BASE = ''https://www.iso-ne.com''"

definition SPP_BASE :: string where
  "SPP_BASE = ''https://www.spp.org''"

text \<open>
  \<^verbatim>\<open>build_vevent\<close> of \<^verbatim>\<open>fetch_isone_calendar.py\<close>. The clock reading \<open>now\<close> and the
  function \<open>strip_html\<close> (regular expressions and \<^verbatim>\<open>html.unescape\<close>) are parameters.
  \<^verbatim>\<open>
  eid = event.get("event_id", "")
  title = event.get("event_title", "ISO-NE Event")
  start_str = event.get("event_start_date_gmt_str", "")
  end_str = event.get("event_end_date_gmt_str", "")
  location = event.get("location", "") or ""
  contact = event.get("contact_name", "") or ""
  contact_email = event.get("contact_email", "") or ""
  cancelled = event.get("cancelled_flag", "N") == "Y"
  description_html = event.get("event_description", "") or ""
  if not start_str or not eid:
      return None
  dtstart = start_str.replace("-", "").replace(":", "").replace("T", "T") + "Z"
  dtend = end_str.replace("-", "").replace(":", "").replace("T", "T") + "Z" if end_str else None
  desc_parts = []
  if cancelled:
      desc_parts.append("** CANCELLED **")
  plain_desc = strip_html(description_html)
  if plain_desc:
      desc_parts.append(plain_desc)
  if contact:
      contact_line = f"Contact: {contact}"
      if contact_email:
          contact_line += f" ({contact_email})"
      desc_parts.append(contact_line)
  desc_parts.append(f"{ISONE_BASE}/event-details?eventId={eid}")
  summary = title
  if cancelled:
      summary = f"[CANCELLED] {title}"
  lines = ["BEGIN:VEVENT", f"UID:{eid}@iso-ne.com", f"DTSTAMP:{now}", f"DTSTART:{dtstart}"]
  if dtend:
      lines.append(f"DTEND:{dtend}")
  lines.append(f"SUMMARY:{ics_escape(summary)}")
  if location:
      lines.append(f"LOCATION:{ics_escape(location)}")
  lines.append(f"DESCRIPTION:{ics_escape(chr(10).join(desc_parts))}")
  lines.append(f"URL:{ISONE_BASE}/event-details?eventId={eid}")
  lines.append("END:VEVENT")
  return CRLF.join(lines)
  \<close>
\<close>

definition isone_build_vevent ::
  "string \<Rightarrow> (string \<Rightarrow> string) \<Rightarrow> event \<Rightarrow> py_error + string option" where
  "isone_build_vevent now strip_html event =
     (let eid = dict_get event ''event_id'' (JStr []);
          title = dict_get event ''event_title'' (JStr ''ISO-NE Event'');
          start_str = dict_get event ''event_start_date_gmt_str'' (JStr []);
          end_str = dict_get event ''event_end_date_gmt_str'' (JStr []);
          location = or_empty (dict_get event ''location'' (JStr []));
          contact = or_empty (dict_get event ''contact_name'' (JStr []));
          contact_email = or_empty (dict_get event ''contact_email'' (JStr []));
          cancelled = (dict_get event ''cancelled_flag'' (JStr ''N'') = JStr ''Y'');
          description_html = or_empty (dict_get event ''event_description'' (JStr []))
      in if \<not> py_truthy start_str \<or> \<not> py_truthy eid then Inr None
         else
           bind_err (str_method start_str) (\<lambda>s.
           bind_err (if py_truthy end_str
                     then bind_err (str_method end_str) (\<lambda>e. Inr (Some (isone_dt e)))
                     else Inr None) (\<lambda>dtend.
           bind_err (str_arg description_html) (\<lambda>html.
           bind_err (if cancelled then Inr (''[CANCELLED] '' @ py_format title)
                     else str_method title) (\<lambda>summary.
           bind_err (if py_truthy location then str_method location else Inr []) (\<lambda>loc.
             (let dtstart = isone_dt s;
                  desc_parts0 = (if cancelled then [''** CANCELLED **''] else []);
                  plain_desc = strip_html html;
                  desc_parts1 = (if plain_desc \<noteq> [] then desc_parts0 @ [plain_desc]
                                 else desc_parts0);
                  contact_line = ''Contact: '' @ py_format contact @
                    (if py_truthy contact_email then '' ('' @ py_format contact_email @ '')''
                     else []);
                  desc_parts2 = (if py_truthy contact then desc_parts1 @ [contact_line]
                                 else desc_parts1);
                  desc_parts = desc_parts2 @
                    [ISONE_BASE @ ''/event-details?eventId='' @ py_format eid];
                  lines0 = [''BEGIN:VEVENT'',
                            ''UID:'' @ py_format eid @ ''@iso-ne.com'',
                            ''DTSTAMP:'' @ now,
                            ''DTSTART:'' @ dtstart];
                  lines1 = (if truthy dtend then lines0 @ [''DTEND:'' @ the dtend] else lines0);
                  lines2 = lines1 @ [''SUMMARY:'' @ ics_escape summary];
                  lines3 = (if py_truthy location then lines2 @ [''LOCATION:'' @ ics_escape loc]
                            else lines2);
                  lines4 = lines3 @
                    [''DESCRIPTION:'' @ ics_escape (str_join [LF] desc_parts),
                     ''URL:'' @ ISONE_BASE @ ''/event-details?eventId='' @ py_format eid,
                     ''END:VEVENT'']
              in Inr (Some (str_join CRLF lines4)))))))))"

text \<open>
  \<^verbatim>\<open>build_vevent\<close> of \<^verbatim>\<open>fetch_spp_calendar.py\<close>; it returns the empty string for an
  event it skips.
  \<^verbatim>\<open>
  eid = event["id"]
  title = event.get("title", "SPP Event")
  alt_title = event.get("alternateTitle", "")
  start = event.get("start", "")
  end = event.get("end", "")
  location_parts = [event.get("location", ""), event.get("city", ""), event.get("state", "")]
  location = ", ".join(p for p in location_parts if p)
  url = event.get("url", "")
  if url and not url.startswith("http"):
      url = SPP_BASE + url
  schedule = event.get("fullSchedule", "")
  dtstart = parse_dt(start) if start else None
  dtend = parse_dt(end) if end else None
  if not dtstart:
      return ""
  lines = ["BEGIN:VEVENT", f"UID:{eid}@spp.org", f"DTSTAMP:{now}",
           f"DTSTART;TZID=America/Chicago:{dtstart}"]
  if dtend:
      lines.append(f"DTEND;TZID=America/Chicago:{dtend}")
  lines.append(f"SUMMARY:{ics_escape(title)}")
  if alt_title and alt_title != title:
      lines.append(f"DESCRIPTION:{ics_escape(alt_title)}")
  if location:
      lines.append(f"LOCATION:{ics_escape(location)}")
  if url:
      lines.append(f"URL:{url}")
  lines.append("END:VEVENT")
  return CRLF.join(lines)
  \<close>
\<close>

fun join_truthy :: "json list \<Rightarrow> py_error + string list" where
  "join_truthy [] = Inr []"
| "join_truthy (p # ps) =
     (if py_truthy p
      then bind_err (str_arg p) (\<lambda>s. bind_err (join_truthy ps) (\<lambda>ss. Inr (s # ss)))
      else join_truthy ps)"

definition spp_build_vevent :: "string \<Rightarrow> event \<Rightarrow> py_error + string" where
  "spp_build_vevent now event =
     bind_err (dict_item event ''id'') (\<lambda>eid.
       (let title = dict_get event ''title'' (JStr ''SPP Event'');
            alt_title = dict_get event ''alternateTitle'' (JStr []);
            start = dict_get event ''start'' (JStr []);
            end_v = dict_get event ''end'' (JStr []);
            location_parts = [dict_get event ''location'' (JStr []),
                              dict_get event ''city'' (JStr []),
                              dict_get event ''state'' (JStr [])]
        in bind_err (join_truthy location_parts) (\<lambda>parts.
           bind_err (if py_truthy (dict_get event ''url'' (JStr []))
                     then bind_err (str_method (dict_get event ''url'' (JStr []))) (\<lambda>u.
                            Inr (if \<not> prefix ''http'' u then SPP_BASE @ u else u))
                     else Inr []) (\<lambda>url.
           bind_err (if py_truthy start
                     then bind_err (str_method start) (\<lambda>s. Inr (Some (parse_dt s)))
                     else Inr None) (\<lambda>dtstart.
           bind_err (if py_truthy end_v
                     then bind_err (str_method end_v) (\<lambda>e. Inr (Some (parse_dt e)))
                     else Inr None) (\<lambda>dtend.
             if \<not> truthy dtstart then Inr []
             else
               bind_err (str_method title) (\<lambda>t.
               bind_err (if py_truthy alt_title \<and> alt_title \<noteq> title
                         then bind_err (str_method alt_title) (\<lambda>a. Inr (Some a))
                         else Inr None) (\<lambda>alt.
                 (let location = str_join '', '' parts;
                      lines0 = [''BEGIN:VEVENT'',
                                ''UID:'' @ py_format eid @ ''@spp.org'',
                                ''DTSTAMP:'' @ now,
                                ''DTSTART;TZID=America/Chicago:'' @ the dtstart];
                      lines1 = (if truthy dtend
                                then lines0 @ [''DTEND;TZID=America/Chicago:'' @ the dtend]
                                else lines0);
                      lines2 = lines1 @ [''SUMMARY:'' @ ics_escape t];
                      lines3 = (case alt of
                                  Some a \<Rightarrow> lines2 @ [''DESCRIPTION:'' @ ics_escape a]
                                | None \<Rightarrow> lines2);
                      lines4 = (if location \<noteq> [] then lines3 @ [''LOCATION:'' @ ics_escape location]
                                else lines3);
                      lines5 = (if url \<noteq> [] then lines4 @ [''URL:'' @ url] else lines4);
                      lines6 = lines5 @ [''END:VEVENT'']
                  in Inr (str_join CRLF lines6))))))))))"

text \<open>
  The loop of \<^verbatim>\<open>main\<close> in both scripts; an exception of \<^verbatim>\<open>build_vevent\<close> is not caught
  and ends the run.
  \<^verbatim>\<open>
  vevents = []
  for event in events:
      vevent = build_vevent(event)
      if vevent:
          vevents.append(vevent)
  \<close>
\<close>

fun isone_collect ::
  "string \<Rightarrow> (string \<Rightarrow> string) \<Rightarrow> string list \<Rightarrow> event list \<Rightarrow> py_error + string list" where
  "isone_collect now strip_html vevents [] = Inr vevents"
| "isone_collect now strip_html vevents (event # rest) =
     bind_err (isone_build_vevent now strip_html event) (\<lambda>vevent.
       isone_collect now strip_html
         (if truthy vevent then vevents @ [the vevent] else vevents) rest)"

fun spp_collect :: "string \<Rightarrow> string list \<Rightarrow> event list \<Rightarrow> py_error + string list" where
  "spp_collect now vevents [] = Inr vevents"
| "spp_collect now vevents (event # rest) =
     bind_err (spp_build_vevent now event) (\<lambda>vevent.
       spp_collect now (if vevent \<noteq> [] then vevents @ [vevent] else vevents) rest)"

section \<open>Texts in which the validator and the line scan see the same markers\<close>

text \<open>
  The buffers the all-blocks loop joins, one per block: the loop of \<^verbatim>\<open>extract_vevents\<close>
  with \<open>buf\<close> kept as a list of lines.
\<close>

fun scan_lines :: "string list \<Rightarrow> bool \<Rightarrow> string list \<Rightarrow> string list list" where
  "scan_lines buf inside [] = []"
| "scan_lines buf inside (line # lines) =
     (let inside1 = (if str_strip line = ''BEGIN:VEVENT'' then True else inside);
          buf1 = (if str_strip line = ''BEGIN:VEVENT'' then [] else buf);
          buf2 = (if inside1 then buf1 @ [line] else buf1)
      in if inside1 \<and> str_strip line = ''END:VEVENT''
         then buf2 # scan_lines buf2 False lines
         else scan_lines buf2 inside1 lines)"

definition vevent_lines :: "string \<Rightarrow> string list list" where
  "vevent_lines ics_text = scan_lines [] False (normalized_lines ics_text)"

text \<open>
  The text that follows a line in a text with LF line endings: LF and the next line, for
  every line to come.
\<close>

definition lf_tail :: "string list \<Rightarrow> string" where
  "lf_tail ls = concat (map (\<lambda>l. LF # l) ls)"

text \<open>
  A line is a marker exactly, or has no marker in it (no marker inside a longer line,
  none with blanks around it); and every line of a text is so.
\<close>

definition whole_marker :: "string \<Rightarrow> bool" where
  "whole_marker l \<longleftrightarrow> l = ''BEGIN:VEVENT'' \<or> l = ''END:VEVENT'' \<or>
     (\<not> sublist ''BEGIN:VEVENT'' l \<and> \<not> sublist ''END:VEVENT'' l)"

definition whole_line_markers :: "string list \<Rightarrow> bool" where
  "whole_line_markers ls \<longleftrightarrow> list_all whole_marker ls"

text \<open>No begin-marker line stands inside an open block.\<close>

fun no_reopen :: "bool \<Rightarrow> string list \<Rightarrow> bool" where
  "no_reopen inside [] = True"
| "no_reopen inside (l # ls) =
     (if is_begin l then \<not> inside \<and> no_reopen True ls
      else if is_end l then no_reopen False ls
      else no_reopen inside ls)"

text \<open>
  A block has a property when one of its lines starts with the property's name.
\<close>

definition has_property :: "string \<Rightarrow> string \<Rightarrow> bool" where
  "has_property name block \<longleftrightarrow> list_ex (prefix name) (normalized_lines block)"

text \<open>
  The validator reads each feed with
  \<^verbatim>\<open>subprocess.run(["curl", "-s", url], capture_output=True, text=True)\<close> and takes
  \<^verbatim>\<open>r.stdout\<close>: in text mode Python decodes the output with universal newlines, so that
  every CRLF and every remaining CR arrives as LF.
\<close>

definition universal_newlines :: "string \<Rightarrow> string" where
  "universal_newlines raw = str_replace [CR] [LF] (str_replace [CR, LF] [LF] raw)"

section \<open>Properties of the escaping\<close>

lemma str_replace_single:
  "str_replace [a] new s = concat (map (\<lambda>x. if x = a then new else [x]) s)"
  by (induction s) auto

lemma ics_escape_chars: "ics_escape s = concat (map escape_char s)"
  unfolding ics_escape_def str_replace_single
  by (induction s) (auto simp: escape_char_def)

lemma ics_unescape_escape_char:
  "ics_unescape (escape_char c @ r) = c # ics_unescape r"
  by (cases r) (auto simp: escape_char_def)

lemma ics_unescape_concat:
  "ics_unescape (concat (map escape_char s)) = s"
  by (induction s) (auto simp: ics_unescape_escape_char)

text \<open>
  C5. \<open>ics_escape\<close> replaces backslash by two backslashes, then semicolon by
  backslash-semicolon, then comma by backslash-comma, then newline by backslash-n, in
  this order; the result is each character's escape in sequence, unescaping it gives the
  input back, and the function is injective.
\<close>

theorem ics_escape_round_trip:
  "ics_escape s =
     str_replace [LF] [CHR 0x5C, CHR ''n'']
       (str_replace '','' [CHR 0x5C, CHR '','']
         (str_replace '';'' [CHR 0x5C, CHR '';'']
           (str_replace [CHR 0x5C] [CHR 0x5C, CHR 0x5C] s)))
   \<and> ics_escape s = concat (map escape_char s)
   \<and> ics_unescape (ics_escape s) = s
   \<and> inj ics_escape"
proof -
  have rt: "ics_unescape (ics_escape t) = t" for t
    by (simp add: ics_escape_chars ics_unescape_concat)
  have "inj ics_escape"
    by (rule inj_on_inverseI [where g = ics_unescape]) (rule rt)
  then show ?thesis
    by (simp add: rt ics_escape_chars [symmetric]) (simp add: ics_escape_def)
qed

section \<open>Properties of the block parser\<close>

lemma begin_not_end: "is_begin l \<Longrightarrow> \<not> is_end l"
  by (simp add: is_begin_def is_end_def)

lemma extract_vevents_loop_begin:
  "is_begin l \<Longrightarrow> extract_vevents_loop vs buf inside (l # ls) = extract_vevents_loop vs [l] True ls"
  by (simp add: is_begin_def Let_def)

lemma extract_vevents_loop_end:
  "is_end l \<Longrightarrow> extract_vevents_loop vs buf True (l # ls) =
     extract_vevents_loop (vs @ [str_join CRLF (buf @ [l])]) (buf @ [l]) False ls"
  "is_end l \<Longrightarrow> extract_vevents_loop vs buf False (l # ls) = extract_vevents_loop vs buf False ls"
  by (simp_all add: is_end_def Let_def)

lemma extract_vevents_loop_other:
  "\<not> is_marker l \<Longrightarrow> extract_vevents_loop vs buf True (l # ls) =
     extract_vevents_loop vs (buf @ [l]) True ls"
  "\<not> is_marker l \<Longrightarrow> extract_vevents_loop vs buf False (l # ls) =
     extract_vevents_loop vs buf False ls"
  by (simp_all add: is_marker_def is_begin_def is_end_def Let_def)

lemma extract_vevents_loop_blocks:
  "extract_vevents_loop vs buf inside ls = vs @ open_block inside buf ls @ terminated_blocks ls"
proof (induction ls arbitrary: vs buf inside)
  case Nil
  show ?case by (simp add: open_block_def)
next
  case (Cons l ls)
  consider (b) "is_begin l" | (e) "is_end l" "\<not> is_begin l" | (n) "\<not> is_marker l"
    using is_marker_def by blast
  then show ?case
  proof cases
    case b
    then have "\<not> is_end l" "is_marker l" by (simp_all add: begin_not_end is_marker_def)
    with b show ?thesis
      by (simp add: extract_vevents_loop_begin Cons.IH open_block_def block_from_def
          del: extract_vevents_loop.simps cong: list.case_cong if_cong)
  next
    case e
    then show ?thesis
      by (cases inside)
        (simp_all add: extract_vevents_loop_end Cons.IH is_marker_def open_block_def
          del: extract_vevents_loop.simps cong: list.case_cong if_cong)
  next
    case n
    then have "\<not> is_begin l" by (simp add: is_marker_def)
    with n show ?thesis
      by (cases inside)
        (simp_all add: extract_vevents_loop_other Cons.IH open_block_def
          del: extract_vevents_loop.simps cong: list.case_cong if_cong)
  qed
qed

lemma extract_vevents_terminated:
  "extract_vevents text = terminated_blocks (normalized_lines text)"
  by (simp add: extract_vevents_def extract_vevents_loop_blocks open_block_def)

lemma extract_vevent_loop_True:
  "extract_vevent_loop buf True (l # ls) =
     (if is_end l then Some (str_join CRLF (buf @ [l])) else extract_vevent_loop (buf @ [l]) True ls)"
  by (simp add: is_end_def Let_def)

lemma extract_vevent_loop_False:
  "extract_vevent_loop buf False (l # ls) =
     (if is_begin l then extract_vevent_loop (buf @ [l]) True ls
      else extract_vevent_loop buf False ls)"
  by (simp add: is_begin_def Let_def)

lemma extract_vevent_loop_inside:
  "extract_vevent_loop buf True ls = open_span buf ls"
  by (induction ls arbitrary: buf)
    (simp_all add: open_span_def extract_vevent_loop_True del: extract_vevent_loop.simps(2)
      cong: list.case_cong if_cong)

lemma extract_vevent_loop_outside:
  "extract_vevent_loop [] False ls = first_span ls"
  by (induction ls)
    (simp_all add: first_span_def extract_vevent_loop_False extract_vevent_loop_inside open_span_def
      del: extract_vevent_loop.simps(2) cong: list.case_cong if_cong)

lemma extract_vevent_span: "extract_vevent text = first_span (normalized_lines text)"
  by (simp add: extract_vevent_def extract_vevent_loop_outside)

lemma block_from_Nil: "dropWhile (\<lambda>l. \<not> is_marker l) ls = [] \<Longrightarrow> block_from b ls = []"
  unfolding block_from_def by (simp only: list.case)

lemma block_from_Cons:
  "dropWhile (\<lambda>l. \<not> is_marker l) ls = e # es \<Longrightarrow>
   block_from b ls =
     (if is_end e then [str_join CRLF (b # takeWhile (\<lambda>l. \<not> is_marker l) ls @ [e])] else [])"
  unfolding block_from_def by (simp only: list.case)

lemma dropWhile_ConsD: "dropWhile P xs = y # ys \<Longrightarrow> \<not> P y \<and> y \<in> set xs \<and> xs = takeWhile P xs @ y # ys"
proof -
  assume a: "dropWhile P xs = y # ys"
  have "xs = takeWhile P xs @ y # ys"
    using a takeWhile_dropWhile_id [of P xs] by simp
  moreover from this have "y \<in> set xs"
    by (metis in_set_conv_decomp)
  moreover have "\<not> P y"
    using a by (metis hd_dropWhile list.distinct(1) list.sel(1))
  ultimately show ?thesis by blast
qed

lemma dropWhile_skip:
  "\<forall>x\<in>set pre. P x \<Longrightarrow> \<not> P m \<Longrightarrow> dropWhile P (pre @ m # ms) = m # ms"
  by simp

lemma block_from_no_end: "\<forall>l\<in>set ls. \<not> is_end l \<Longrightarrow> block_from b ls = []"
proof -
  assume a: "\<forall>l\<in>set ls. \<not> is_end l"
  show ?thesis
  proof (cases "dropWhile (\<lambda>l. \<not> is_marker l) ls")
    case Nil
    then show ?thesis by (rule block_from_Nil)
  next
    case (Cons e es)
    have "e \<in> set ls" using dropWhile_ConsD [OF Cons] by blast
    with a have "\<not> is_end e" by blast
    then show ?thesis by (simp add: block_from_Cons [OF Cons])
  qed
qed

lemma terminated_blocks_no_end: "\<forall>l\<in>set ls. \<not> is_end l \<Longrightarrow> terminated_blocks ls = []"
  by (induction ls) (simp_all add: block_from_no_end)

lemma block_from_append_begin:
  "is_begin b \<Longrightarrow> block_from l (pre @ b # rest) = block_from l pre"
proof -
  assume b: "is_begin b"
  then have m: "is_marker b" "\<not> is_end b" by (simp_all add: is_marker_def begin_not_end)
  show ?thesis
  proof (cases "dropWhile (\<lambda>l. \<not> is_marker l) pre")
    case Nil
    then have "\<forall>x\<in>set pre. \<not> is_marker x" by simp
    then have "dropWhile (\<lambda>l. \<not> is_marker l) (pre @ b # rest) = b # rest"
      using m by simp
    then show ?thesis
      using m by (simp add: block_from_Cons block_from_Nil [OF Nil])
  next
    case (Cons e es)
    then have "\<exists>x\<in>set pre. is_marker x"
      using dropWhile_ConsD [OF Cons] by blast
    then have "dropWhile (\<lambda>l. \<not> is_marker l) (pre @ b # rest) = e # es @ b # rest"
      and "takeWhile (\<lambda>l. \<not> is_marker l) (pre @ b # rest) = takeWhile (\<lambda>l. \<not> is_marker l) pre"
      using Cons by (auto simp: dropWhile_append1 takeWhile_append1)
    then show ?thesis
      by (simp add: block_from_Cons [OF Cons] block_from_Cons)
  qed
qed

lemma terminated_blocks_append_begin:
  "is_begin b \<Longrightarrow>
   terminated_blocks (pre @ b # rest) = terminated_blocks pre @ terminated_blocks (b # rest)"
  by (induction pre) (simp_all add: block_from_append_begin)

lemma unterminated_begin_no_block:
  "is_begin b \<Longrightarrow> \<forall>l\<in>set rest. \<not> is_end l \<Longrightarrow>
   terminated_blocks (pre @ b # rest) = terminated_blocks pre"
  by (simp add: terminated_blocks_append_begin block_from_no_end terminated_blocks_no_end)

lemma block_from_form:
  assumes "blk \<in> set (block_from l ls)"
  shows "\<exists>mid e es. blk = str_join CRLF (l # mid @ [e]) \<and> is_end e \<and>
     (\<forall>x\<in>set mid. \<not> is_marker x) \<and> ls = mid @ e # es"
proof (cases "dropWhile (\<lambda>l. \<not> is_marker l) ls")
  case Nil
  with assms show ?thesis by (simp add: block_from_Nil)
next
  case (Cons e es)
  let ?mid = "takeWhile (\<lambda>l. \<not> is_marker l) ls"
  from assms have "is_end e" and "blk = str_join CRLF (l # ?mid @ [e])"
    by (simp_all add: block_from_Cons [OF Cons] split: if_splits)
  moreover have "ls = ?mid @ e # es"
    using dropWhile_ConsD [OF Cons] by blast
  moreover have "\<forall>x\<in>set ?mid. \<not> is_marker x"
    by (auto dest: set_takeWhileD)
  ultimately show ?thesis by blast
qed

lemma terminated_blocks_form:
  "blk \<in> set (terminated_blocks ls) \<Longrightarrow>
   \<exists>b mid e. blk = str_join CRLF (b # mid @ [e]) \<and> is_begin b \<and> is_end e \<and>
     (\<forall>l\<in>set mid. \<not> is_marker l) \<and> sublist (b # mid @ [e]) ls"
proof (induction ls)
  case Nil
  then show ?case by simp
next
  case (Cons l ls)
  show ?case
  proof (cases "blk \<in> set (terminated_blocks ls)")
    case True
    with Cons.IH obtain b mid e where
      h: "blk = str_join CRLF (b # mid @ [e])" "is_begin b" "is_end e"
         "\<forall>l\<in>set mid. \<not> is_marker l" "sublist (b # mid @ [e]) ls"
      by blast
    from h(5) have "sublist (b # mid @ [e]) (l # ls)"
      by (simp add: sublist_Cons_right)
    with h show ?thesis by blast
  next
    case False
    with Cons.prems have bl: "is_begin l" and mem: "blk \<in> set (block_from l ls)"
      by (simp_all split: if_splits)
    from block_from_form [OF mem] obtain mid e es where
      h: "blk = str_join CRLF (l # mid @ [e])" "is_end e" "\<forall>x\<in>set mid. \<not> is_marker x"
         "ls = mid @ e # es"
      by blast
    from h(4) have "l # ls = [] @ (l # mid @ [e]) @ es" by simp
    then have "sublist (l # mid @ [e]) (l # ls)"
      unfolding sublist_def by blast
    with h bl show ?thesis by blast
  qed
qed

lemma terminated_blocks_empty_iff:
  "terminated_blocks ls = [] \<longleftrightarrow> (\<forall>e\<in>set (dropWhile (\<lambda>l. \<not> is_begin l) ls). \<not> is_end e)"
proof (induction ls)
  case Nil
  show ?case by simp
next
  case (Cons l ls)
  show ?case
  proof (cases "is_begin l")
    case False
    with Cons.IH show ?thesis by simp
  next
    case True
    then have ne: "\<not> is_end l" by (rule begin_not_end)
    have "(block_from l ls = [] \<and> (\<forall>e\<in>set (dropWhile (\<lambda>l. \<not> is_begin l) ls). \<not> is_end e))
        \<longleftrightarrow> (\<forall>e\<in>set ls. \<not> is_end e)" (is "?L \<longleftrightarrow> ?R")
    proof
      assume R: ?R
      then have "block_from l ls = []" by (rule block_from_no_end)
      moreover have "\<forall>e\<in>set (dropWhile (\<lambda>l. \<not> is_begin l) ls). \<not> is_end e"
        using R set_dropWhileD by fast
      ultimately show ?L by blast
    next
      assume L: ?L
      show ?R
      proof (cases "dropWhile (\<lambda>l. \<not> is_marker l) ls")
        case Nil
        then have "\<forall>x\<in>set ls. \<not> is_marker x" by simp
        then show ?thesis by (simp add: is_marker_def)
      next
        case (Cons m ms)
        note d = dropWhile_ConsD [OF Cons]
        let ?pre = "takeWhile (\<lambda>l. \<not> is_marker l) ls"
        have split: "ls = ?pre @ m # ms" using d by blast
        have nm: "\<forall>x\<in>set ?pre. \<not> is_marker x"
          by (auto dest: set_takeWhileD)
        have "is_marker m" using d by blast
        moreover have "\<not> is_end m"
        proof
          assume "is_end m"
          then have "block_from l ls \<noteq> []" by (simp add: block_from_Cons [OF Cons])
          with L show False by blast
        qed
        ultimately have mb: "is_begin m" by (simp add: is_marker_def)
        have nb: "\<forall>x\<in>set ?pre. \<not> is_begin x"
          using nm is_marker_def by blast
        have "dropWhile (\<lambda>l. \<not> is_begin l) (?pre @ m # ms) = m # ms"
          by (rule dropWhile_skip) (use nb mb in blast)+
        with split have "dropWhile (\<lambda>l. \<not> is_begin l) ls = m # ms" by simp
        with L have "\<forall>e\<in>set (m # ms). \<not> is_end e" by simp
        moreover have "\<forall>x\<in>set ?pre. \<not> is_end x"
          using nm is_marker_def by blast
        ultimately have "\<forall>e\<in>set (?pre @ m # ms). \<not> is_end e" by auto
        with split show ?thesis by simp
      qed
    qed
    with True ne Cons.IH show ?thesis by simp
  qed
qed

lemma first_span_None_iff:
  "first_span ls = None \<longleftrightarrow> (\<forall>e\<in>set (dropWhile (\<lambda>l. \<not> is_begin l) ls). \<not> is_end e)"
proof (cases "dropWhile (\<lambda>l. \<not> is_begin l) ls")
  case Nil
  show ?thesis unfolding first_span_def Nil by simp
next
  case (Cons b rest)
  then have "is_begin b" using dropWhile_ConsD [OF Cons] by blast
  then have nb: "\<not> is_end b" by (rule begin_not_end)
  have "(dropWhile (\<lambda>l. \<not> is_end l) rest = []) \<longleftrightarrow> (\<forall>x\<in>set rest. \<not> is_end x)"
    by simp
  then have "(case dropWhile (\<lambda>l. \<not> is_end l) rest of [] \<Rightarrow> None
              | e # x \<Rightarrow> Some (str_join CRLF (b # takeWhile (\<lambda>l. \<not> is_end l) rest @ [e]))) = None
             \<longleftrightarrow> (\<forall>x\<in>set rest. \<not> is_end x)"
    by (cases "dropWhile (\<lambda>l. \<not> is_end l) rest") (simp_all del: dropWhile_eq_Nil_conv)
  with nb show ?thesis
    unfolding first_span_def Cons by simp
qed


lemma terminated_blocks_no_begin: "\<forall>l\<in>set ls. \<not> is_begin l \<Longrightarrow> terminated_blocks ls = []"
  by (induction ls) simp_all

lemma first_span_single_begin:
  assumes "single_begin ls"
  shows "first_span ls = (case terminated_blocks ls of [] \<Rightarrow> None | blk # _ \<Rightarrow> Some blk)"
proof (cases "dropWhile (\<lambda>l. \<not> is_begin l) ls")
  case Nil
  then have "\<forall>l\<in>set ls. \<not> is_begin l" by simp
  then have "terminated_blocks ls = []" by (rule terminated_blocks_no_begin)
  moreover have "first_span ls = None" unfolding first_span_def Nil by simp
  ultimately show ?thesis by simp
next
  case (Cons b rest)
  note d = dropWhile_ConsD [OF Cons]
  let ?pre = "takeWhile (\<lambda>l. \<not> is_begin l) ls"
  have b: "is_begin b" using d by blast
  have "\<forall>l\<in>set ?pre. \<not> is_begin l" by (auto dest: set_takeWhileD)
  then have "terminated_blocks ?pre = []" by (rule terminated_blocks_no_begin)
  moreover have "terminated_blocks (?pre @ b # rest) = terminated_blocks ?pre @ terminated_blocks (b # rest)"
    using b by (rule terminated_blocks_append_begin)
  moreover have "ls = ?pre @ b # rest" using d by blast
  ultimately have tb: "terminated_blocks ls = block_from b rest @ terminated_blocks rest"
    using b by simp
  show ?thesis
  proof (cases "dropWhile (\<lambda>l. \<not> is_end l) rest")
    case Nil
    then have ne: "\<forall>l\<in>set rest. \<not> is_end l" by simp
    have "first_span ls = None"
      unfolding first_span_def Cons list.case Nil by simp
    moreover have "terminated_blocks ls = []"
      using tb ne by (simp add: block_from_no_end terminated_blocks_no_end)
    ultimately show ?thesis by simp
  next
    case (Cons e es)
    note d2 = dropWhile_ConsD [OF Cons]
    let ?mid = "takeWhile (\<lambda>l. \<not> is_end l) rest"
    have e: "is_end e" using d2 by blast
    have "\<forall>l\<in>set ?mid. \<not> is_end l" by (auto dest: set_takeWhileD)
    moreover have "\<forall>l\<in>set ?mid. \<not> is_begin l"
      using assms unfolding single_begin_def \<open>dropWhile (\<lambda>l. \<not> is_begin l) ls = b # rest\<close>
      by (simp add: list_all_iff)
    ultimately have nm: "\<forall>l\<in>set ?mid. \<not> is_marker l"
      using is_marker_def by blast
    have em: "\<not> \<not> is_marker e" using e by (simp add: is_marker_def)
    have rest: "rest = ?mid @ e # es" using d2 by blast
    have "dropWhile (\<lambda>l. \<not> is_marker l) (?mid @ e # es) = e # es"
      by (rule dropWhile_skip) (use nm em in blast)+
    moreover have "takeWhile (\<lambda>l. \<not> is_marker l) (?mid @ e # es) = ?mid"
      using nm em by (simp add: takeWhile_append2)
    ultimately have dm: "dropWhile (\<lambda>l. \<not> is_marker l) rest = e # es"
      and tm: "takeWhile (\<lambda>l. \<not> is_marker l) rest = ?mid"
      using rest by simp_all
    have "block_from b rest = [str_join CRLF (b # ?mid @ [e])]"
      using e by (simp add: block_from_Cons [OF dm] tm)
    moreover have "first_span ls = Some (str_join CRLF (b # ?mid @ [e]))"
      unfolding first_span_def \<open>dropWhile (\<lambda>l. \<not> is_begin l) ls = b # rest\<close> list.case Cons
      by simp
    ultimately show ?thesis using tb by simp
  qed
qed

text \<open>
  C1 (as amended). All-blocks extraction returns, in source order, one block for each
  begin-marker line whose next marker line is an end marker: the lines from the one to the
  other joined with CRLF. Every returned block starts with a begin-marker line, ends with
  an end-marker line, has no marker line in between and is a run of consecutive lines of
  the text. A begin-marker line with no end-marker line after it contributes no block,
  and neither does anything after it. First-block extraction returns the lines from the
  first begin-marker line to the first end-marker line after it, further begin-marker
  lines in between included; it returns nothing exactly when all-blocks extraction
  returns no block, and returns the first block of all-blocks extraction when no further
  begin-marker line stands in between.
\<close>

theorem extract_vevents_terminated_blocks:
  "extract_vevents text = terminated_blocks (normalized_lines text)
   \<and> (\<forall>blk\<in>set (extract_vevents text).
        \<exists>b mid e. blk = str_join CRLF (b # mid @ [e]) \<and> is_begin b \<and> is_end e \<and>
          (\<forall>l\<in>set mid. \<not> is_marker l) \<and> sublist (b # mid @ [e]) (normalized_lines text))
   \<and> (\<forall>pre b rest.
        normalized_lines text = pre @ b # rest \<and> is_begin b \<and> (\<forall>l\<in>set rest. \<not> is_end l) \<longrightarrow>
        extract_vevents text = terminated_blocks pre)
   \<and> extract_vevent text = first_span (normalized_lines text)
   \<and> (extract_vevent text = None \<longleftrightarrow> extract_vevents text = [])
   \<and> (single_begin (normalized_lines text) \<longrightarrow>
        extract_vevent text = (case extract_vevents text of [] \<Rightarrow> None | blk # _ \<Rightarrow> Some blk))"
proof -
  let ?ls = "normalized_lines text"
  have all: "extract_vevents text = terminated_blocks ?ls"
    by (rule extract_vevents_terminated)
  have first: "extract_vevent text = first_span ?ls"
    by (rule extract_vevent_span)
  have form: "\<forall>blk\<in>set (terminated_blocks ?ls).
        \<exists>b mid e. blk = str_join CRLF (b # mid @ [e]) \<and> is_begin b \<and> is_end e \<and>
          (\<forall>l\<in>set mid. \<not> is_marker l) \<and> sublist (b # mid @ [e]) ?ls"
    using terminated_blocks_form by blast
  have open_end: "\<forall>pre b rest.
        ?ls = pre @ b # rest \<and> is_begin b \<and> (\<forall>l\<in>set rest. \<not> is_end l) \<longrightarrow>
        terminated_blocks ?ls = terminated_blocks pre"
    using unterminated_begin_no_block by metis
  have none: "first_span ?ls = None \<longleftrightarrow> terminated_blocks ?ls = []"
    by (simp only: first_span_None_iff terminated_blocks_empty_iff)
  have single: "single_begin ?ls \<longrightarrow>
        first_span ?ls = (case terminated_blocks ?ls of [] \<Rightarrow> None | blk # _ \<Rightarrow> Some blk)"
    using first_span_single_begin by blast
  show ?thesis
    unfolding all first using form open_end none single by blast
qed

text \<open>
  Two complete blocks followed by a block that is never closed: both complete blocks are
  returned, the open one is not, and first-block extraction returns the first of them.
\<close>

theorem extract_vevents_terminated_blocks_witness:
  "extract_vevents (str_join [LF]
      [''BEGIN:VCALENDAR'', ''BEGIN:VEVENT'', ''UID:1'', ''END:VEVENT'',
       ''  BEGIN:VEVENT'', ''UID:2'', ''END:VEVENT  '', ''BEGIN:VEVENT'', ''UID:3''])
     = [str_join CRLF [''BEGIN:VEVENT'', ''UID:1'', ''END:VEVENT''],
        str_join CRLF [''  BEGIN:VEVENT'', ''UID:2'', ''END:VEVENT  '']]
   \<and> extract_vevent (str_join [LF]
      [''BEGIN:VCALENDAR'', ''BEGIN:VEVENT'', ''UID:1'', ''END:VEVENT'',
       ''  BEGIN:VEVENT'', ''UID:2'', ''END:VEVENT  '', ''BEGIN:VEVENT'', ''UID:3''])
     = Some (str_join CRLF [''BEGIN:VEVENT'', ''UID:1'', ''END:VEVENT''])
   \<and> single_begin (normalized_lines (str_join [LF]
      [''BEGIN:VCALENDAR'', ''BEGIN:VEVENT'', ''UID:1'', ''END:VEVENT'',
       ''  BEGIN:VEVENT'', ''UID:2'', ''END:VEVENT  '', ''BEGIN:VEVENT'', ''UID:3'']))"
  using extract_vevents_terminated_blocks [of "str_join [LF]
      [''BEGIN:VCALENDAR'', ''BEGIN:VEVENT'', ''UID:1'', ''END:VEVENT'',
       ''  BEGIN:VEVENT'', ''UID:2'', ''END:VEVENT  '', ''BEGIN:VEVENT'', ''UID:3'']"]
  by (simp add: normalized_lines_def single_begin_def first_span_def block_from_def
      is_begin_def is_end_def is_marker_def str_strip_def py_isspace_def CRLF_def)

text \<open>
  With a second begin marker before the end marker the two extractions differ: the
  all-blocks scan starts its buffer again, the first-block scan keeps what it has.
\<close>

theorem extract_vevent_not_first_block:
  "extract_vevents (str_join [LF]
      [''BEGIN:VEVENT'', ''SUMMARY:a'', ''BEGIN:VEVENT'', ''SUMMARY:b'', ''END:VEVENT''])
     = [str_join CRLF [''BEGIN:VEVENT'', ''SUMMARY:b'', ''END:VEVENT'']]
   \<and> extract_vevent (str_join [LF]
      [''BEGIN:VEVENT'', ''SUMMARY:a'', ''BEGIN:VEVENT'', ''SUMMARY:b'', ''END:VEVENT''])
     = Some (str_join CRLF
         [''BEGIN:VEVENT'', ''SUMMARY:a'', ''BEGIN:VEVENT'', ''SUMMARY:b'', ''END:VEVENT''])
   \<and> extract_vevent (str_join [LF]
      [''BEGIN:VEVENT'', ''SUMMARY:a'', ''BEGIN:VEVENT'', ''SUMMARY:b'', ''END:VEVENT''])
     \<noteq> Some (hd (extract_vevents (str_join [LF]
      [''BEGIN:VEVENT'', ''SUMMARY:a'', ''BEGIN:VEVENT'', ''SUMMARY:b'', ''END:VEVENT''])))"
  by (simp add: extract_vevents_def extract_vevent_def normalized_lines_def str_strip_def
      py_isspace_def CRLF_def)

section \<open>Properties of the merge loops\<close>

lemma keep_new_index:
  "keep_new seen ps =
     map (\<lambda>i. snd (ps ! i))
       (filter (\<lambda>i. fst (ps ! i) \<notin> seen \<union> fst ` set (take i ps)) [0..<length ps])"
proof (induction ps arbitrary: seen)
  case Nil
  show ?case by simp
next
  case (Cons q ps)
  obtain u p where q: "q = (u, p)" by (cases q)
  let ?f = "\<lambda>i. snd ((q # ps) ! i)"
  let ?P = "\<lambda>i. fst ((q # ps) ! i) \<notin> seen \<union> fst ` set (take i (q # ps))"
  have upt: "[0..<length (q # ps)] = [0] @ map Suc [0..<length ps]"
    by (simp add: upt_conv_Cons map_Suc_upt del: upt_Suc)
  have head: "map ?f (filter ?P [0]) = (if u \<in> seen then [] else [p])"
    by (simp add: q)
  have shift: "map ?f (filter ?P (map Suc [0..<length ps]))
       = map (\<lambda>i. snd (ps ! i))
         (filter (\<lambda>i. fst (ps ! i) \<notin> insert u seen \<union> fst ` set (take i ps)) [0..<length ps])"
    by (simp add: filter_map comp_def q conj_ac)
  have "keep_new seen (q # ps) = (if u \<in> seen then [] else [p]) @ keep_new (insert u seen) ps"
    by (simp add: q insert_absorb)
  also have "\<dots> = map ?f (filter ?P [0]) @ map ?f (filter ?P (map Suc [0..<length ps]))"
    by (simp only: head shift Cons.IH)
  also have "\<dots> = map ?f (filter ?P ([0] @ map Suc [0..<length ps]))"
    by (simp only: filter_append map_append)
  finally show ?case by (simp only: upt)
qed

lemma keep_new_first_occurrences: "keep_new {} ps = first_occurrences ps"
  by (simp add: keep_new_index first_occurrences_def)

lemma nyiso_step_cases:
  "nyiso_step (seen, all) ve =
     (if truthy (extract_uid ve) \<and> the (extract_uid ve) \<notin> seen
      then (insert (the (extract_uid ve)) seen, all @ [ve]) else (seen, all))"
  by (simp add: nyiso_step_def Let_def)

lemma foldl_nyiso_step:
  "foldl nyiso_step (seen, all) ves =
     (seen \<union> fst ` set (uid_pairs ves), all @ keep_new seen (uid_pairs ves))"
proof (induction ves arbitrary: seen all)
  case Nil
  show ?case by (simp add: uid_pairs_def)
next
  case (Cons ve ves)
  have up: "uid_pairs (ve # ves) =
      (if truthy (extract_uid ve) then [(the (extract_uid ve), ve)] else []) @ uid_pairs ves"
    by (simp add: uid_pairs_def)
  show ?case
    by (simp add: nyiso_step_cases Cons.IH up insert_absorb)
qed

lemma nyiso_feed_cases:
  "nyiso_feed (st, tz) (Some t) =
     (if t = [] then (st, tz)
      else (foldl nyiso_step st (extract_vevents t),
            if tz = None then extract_vtimezone t else tz))"
  "nyiso_feed (st, tz) None = (st, tz)"
  by (simp_all add: nyiso_feed_def truthy_def)

lemma pjm_feed_cases:
  "pjm_feed s e (seen, all) (Some t) =
     (if t = [] then (seen, all) else foldl (pjm_step s e) (seen, all) (extract_vevents t))"
  "pjm_feed s e (seen, all) None = (seen, all)"
  by (simp_all add: pjm_feed_def truthy_def)

lemma fetched_vevents_Cons:
  "fetched_vevents (Some t # feeds) = (if t = [] then [] else extract_vevents t) @ fetched_vevents feeds"
  "fetched_vevents (None # feeds) = fetched_vevents feeds"
  by (simp_all add: fetched_vevents_def truthy_def)

lemma foldl_nyiso_feed:
  "fst (foldl nyiso_feed (st, tz) feeds) = foldl nyiso_step st (fetched_vevents feeds)"
proof (induction feeds arbitrary: st tz)
  case Nil
  show ?case by (simp add: fetched_vevents_def)
next
  case (Cons f feeds)
  show ?case
    by (cases f) (simp_all add: nyiso_feed_cases fetched_vevents_Cons Cons.IH)
qed

lemma pjm_step_cases:
  "pjm_step s e st ve = (if in_window s e ve then nyiso_step st ve else st)"
  by (cases st) (auto simp: pjm_step_def nyiso_step_def in_window_def Let_def)

lemma foldl_pjm_step:
  "foldl (pjm_step s e) st ves = foldl nyiso_step st (filter (in_window s e) ves)"
  by (induction ves arbitrary: st) (simp_all add: pjm_step_cases)

lemma foldl_pjm_feed:
  "foldl (pjm_feed s e) st feeds = foldl (pjm_step s e) st (fetched_vevents feeds)"
proof (induction feeds arbitrary: st)
  case Nil
  show ?case by (simp add: fetched_vevents_def)
next
  case (Cons f feeds)
  obtain seen all where st: "st = (seen, all)" by (cases st)
  show ?case
    unfolding st by (cases f) (simp_all add: pjm_feed_cases fetched_vevents_Cons Cons.IH)
qed

lemma match_dtstart_digits: "match_dtstart line = Some d \<Longrightarrow> length d = 8 \<and> list_all is_digit d"
  by (auto simp: match_dtstart_def split: if_splits list.splits)

lemma extract_dtstart_date_loop_digits:
  "extract_dtstart_date_loop ls = Some d \<Longrightarrow> length d = 8 \<and> list_all is_digit d"
  by (induction ls) (auto split: option.splits dest: match_dtstart_digits)

lemma extract_dtstart_date_digits:
  "extract_dtstart_date ve = Some d \<Longrightarrow> length d = 8 \<and> list_all is_digit d"
  unfolding extract_dtstart_date_def by (rule extract_dtstart_date_loop_digits)

lemma pjm_step_dated:
  assumes "extract_uid ve = Some u" "u \<noteq> []" "u \<notin> seen" "extract_dtstart_date ve = Some d"
  shows "pjm_step s e (seen, all) ve =
     (if s \<le> d \<and> d < e then (insert u seen, all @ [ve]) else (seen, all))"
proof -
  have "d \<noteq> []" using extract_dtstart_date_digits [OF assms(4)] by auto
  with assms show ?thesis
    by (simp add: pjm_step_def truthy_def)
qed

lemma pjm_step_undated:
  assumes "extract_uid ve = Some u" "u \<noteq> []" "u \<notin> seen" "extract_dtstart_date ve = None"
  shows "pjm_step s e (seen, all) ve = (insert u seen, all @ [ve])"
  using assms by (simp add: pjm_step_def truthy_def)

lemma pjm_step_outside:
  assumes "extract_dtstart_date ve = Some d" "\<not> (s \<le> d \<and> d < e)"
  shows "pjm_step s e st ve = st"
proof -
  have "d \<noteq> []" using extract_dtstart_date_digits [OF assms(1)] by auto
  with assms show ?thesis
    by (simp add: pjm_step_def truthy_def Let_def)
qed

lemma pjm_step_keeps: "set (snd st) \<subseteq> set (snd (pjm_step s e st ve))"
  by (auto simp: pjm_step_def Let_def)

lemma foldl_pjm_step_keeps: "set (snd st) \<subseteq> set (snd (foldl (pjm_step s e) st ves))"
proof (induction ves arbitrary: st)
  case Nil
  show ?case by simp
next
  case (Cons ve ves)
  have "set (snd st) \<subseteq> set (snd (pjm_step s e st ve))" by (rule pjm_step_keeps)
  also have "\<dots> \<subseteq> set (snd (foldl (pjm_step s e) (pjm_step s e st ve) ves))" by (rule Cons.IH)
  finally show ?case by simp
qed

lemma sublist_str_join: "v \<in> set vs \<Longrightarrow> sublist v (str_join sep vs)"
proof (induction sep vs rule: str_join.induct)
  case (1 sep)
  then show ?case by simp
next
  case (2 sep x)
  then show ?case by simp
next
  case (3 sep x y ys)
  show ?case
  proof (cases "v = x")
    case True
    then show ?thesis by simp
  next
    case False
    with 3 have "sublist v (str_join sep (y # ys))" by simp
    then obtain ps ss where "str_join sep (y # ys) = ps @ v @ ss"
      unfolding sublist_def by blast
    then have "str_join sep (x # y # ys) = (x @ sep @ ps) @ v @ ss" by simp
    then show ?thesis unfolding sublist_def by blast
  qed
qed

lemma sublist_pjm_build_merged_ics:
  assumes "v \<in> set vs"
  shows "sublist v (pjm_build_merged_ics vs)"
proof -
  from sublist_str_join [OF assms, of CRLF] obtain ps ss where
    j: "str_join CRLF vs = ps @ v @ ss"
    unfolding sublist_def by blast
  obtain h where "pjm_build_merged_ics vs = (h @ CRLF @ ps) @ v @ (ss @ CRLF @ ''END:VCALENDAR'' @ CRLF)"
    by (simp add: pjm_build_merged_ics_def Let_def j)
  then show ?thesis unfolding sublist_def by blast
qed

text \<open>
  C8. In the PJM loop a block with a usable, unseen identity and a start date \<open>d\<close> is
  kept, and its identity registered, exactly when \<open>start \<le> d < end\<close>: kept when \<open>d\<close> is the
  start boundary of a non-empty window, dropped when \<open>d\<close> is the end boundary. A dropped
  block leaves \<open>seen_uids\<close> and \<open>all_vevents\<close> as they were.
\<close>

theorem pjm_window_boundaries:
  assumes "extract_uid ve = Some u" "u \<noteq> []" "u \<notin> seen" "extract_dtstart_date ve = Some d"
  shows "(d = s \<and> s < e \<longrightarrow> pjm_step s e (seen, all) ve = (insert u seen, all @ [ve]))
       \<and> (d = e \<longrightarrow> pjm_step s e (seen, all) ve = (seen, all))
       \<and> pjm_step s e (seen, all) ve =
           (if s \<le> d \<and> d < e then (insert u seen, all @ [ve]) else (seen, all))"
  by (simp add: pjm_step_dated [OF assms])

text \<open>
  C10. In the PJM loop a block with a usable, unseen identity and no DTSTART line carrying
  an eight-digit date passes whatever the window is: its identity is registered, it is in
  \<open>all_vevents\<close> whatever follows, and it is part of the built document. A block whose
  DTSTART date lies outside the window is dropped.
\<close>

theorem pjm_undated_block_kept:
  assumes "extract_uid ve = Some u" "u \<noteq> []" "u \<notin> seen" "extract_dtstart_date ve = None"
  shows "pjm_step s e (seen, all) ve = (insert u seen, all @ [ve])
       \<and> ve \<in> set (snd (foldl (pjm_step s e) (seen, all) (ve # ves)))
       \<and> sublist ve (pjm_build_merged_ics (snd (foldl (pjm_step s e) (seen, all) (ve # ves))))
       \<and> (\<forall>ve' d st. extract_dtstart_date ve' = Some d \<and> \<not> (s \<le> d \<and> d < e) \<longrightarrow>
             pjm_step s e st ve' = st)"
proof -
  have step: "pjm_step s e (seen, all) ve = (insert u seen, all @ [ve])"
    using assms by (rule pjm_step_undated)
  have "set (snd (insert u seen, all @ [ve])) \<subseteq>
      set (snd (foldl (pjm_step s e) (insert u seen, all @ [ve]) ves))"
    by (rule foldl_pjm_step_keeps)
  then have mem: "ve \<in> set (snd (foldl (pjm_step s e) (seen, all) (ve # ves)))"
    by (simp add: step)
  then have "sublist ve (pjm_build_merged_ics (snd (foldl (pjm_step s e) (seen, all) (ve # ves))))"
    by (rule sublist_pjm_build_merged_ics)
  with step mem show ?thesis
    using pjm_step_outside by blast
qed



text \<open>
  C2. The NYISO loop, run over all feeds with one \<open>seen_uids\<close>, returns the payloads
  whose identity occurs in no earlier pair, in input order, and \<open>seen_uids\<close> ends as the
  set of identities; the PJM loop does the same on the blocks its date window lets
  through. Blocks with identities \<open>a, b, a, c, b\<close> leave the first, the second and the
  fourth.
\<close>

theorem merge_keeps_first_occurrences:
  "snd (fst (nyiso_merge feeds)) = first_occurrences (uid_pairs (fetched_vevents feeds))
   \<and> fst (fst (nyiso_merge feeds)) = fst ` set (uid_pairs (fetched_vevents feeds))
   \<and> snd (pjm_merge s e feeds) =
       first_occurrences (uid_pairs (filter (in_window s e) (fetched_vevents feeds)))
   \<and> (extract_uid v1 = Some a \<and> extract_uid v2 = Some b \<and> extract_uid v3 = Some a \<and>
      extract_uid v4 = Some c \<and> extract_uid v5 = Some b \<and>
      a \<noteq> [] \<and> b \<noteq> [] \<and> c \<noteq> [] \<and> a \<noteq> b \<and> a \<noteq> c \<and> b \<noteq> c \<longrightarrow>
      foldl nyiso_step ({}, []) [v1, v2, v3, v4, v5] = ({a, b, c}, [v1, v2, v4]))"
proof -
  have "foldl nyiso_step ({}, []) [v1, v2, v3, v4, v5] = ({a, b, c}, [v1, v2, v4])"
    if "extract_uid v1 = Some a" "extract_uid v2 = Some b" "extract_uid v3 = Some a"
      "extract_uid v4 = Some c" "extract_uid v5 = Some b"
      "a \<noteq> []" "b \<noteq> []" "c \<noteq> []" "a \<noteq> b" "a \<noteq> c" "b \<noteq> c"
    using that by (auto simp: nyiso_step_cases truthy_def)
  then show ?thesis
    by (simp add: nyiso_merge_def pjm_merge_def foldl_nyiso_feed foldl_pjm_feed foldl_pjm_step
      foldl_nyiso_step keep_new_first_occurrences)
qed

text \<open>
  Two feeds and a failed download in between: the second \<open>a\<close> of the first feed and the
  \<open>b\<close> of the last feed are dropped.
\<close>

theorem merge_keeps_first_occurrences_witness:
  "snd (fst (nyiso_merge
      [Some (str_join CRLF
         [''BEGIN:VCALENDAR'',
          ''BEGIN:VEVENT'', ''UID:a'', ''SUMMARY:1'', ''END:VEVENT'',
          ''BEGIN:VEVENT'', ''UID:b'', ''SUMMARY:2'', ''END:VEVENT'',
          ''BEGIN:VEVENT'', ''UID:a'', ''SUMMARY:3'', ''END:VEVENT'',
          ''END:VCALENDAR'']),
       None,
       Some (str_join CRLF
         [''BEGIN:VCALENDAR'',
          ''BEGIN:VEVENT'', ''UID:c'', ''SUMMARY:4'', ''END:VEVENT'',
          ''BEGIN:VEVENT'', ''UID:b'', ''SUMMARY:5'', ''END:VEVENT'',
          ''END:VCALENDAR''])]))
   = [str_join CRLF [''BEGIN:VEVENT'', ''UID:a'', ''SUMMARY:1'', ''END:VEVENT''],
      str_join CRLF [''BEGIN:VEVENT'', ''UID:b'', ''SUMMARY:2'', ''END:VEVENT''],
      str_join CRLF [''BEGIN:VEVENT'', ''UID:c'', ''SUMMARY:4'', ''END:VEVENT'']]"
proof -
  have "first_occurrences (uid_pairs (fetched_vevents
      [Some (str_join CRLF
         [''BEGIN:VCALENDAR'',
          ''BEGIN:VEVENT'', ''UID:a'', ''SUMMARY:1'', ''END:VEVENT'',
          ''BEGIN:VEVENT'', ''UID:b'', ''SUMMARY:2'', ''END:VEVENT'',
          ''BEGIN:VEVENT'', ''UID:a'', ''SUMMARY:3'', ''END:VEVENT'',
          ''END:VCALENDAR'']),
       None,
       Some (str_join CRLF
         [''BEGIN:VCALENDAR'',
          ''BEGIN:VEVENT'', ''UID:c'', ''SUMMARY:4'', ''END:VEVENT'',
          ''BEGIN:VEVENT'', ''UID:b'', ''SUMMARY:5'', ''END:VEVENT'',
          ''END:VCALENDAR''])]))
   = [str_join CRLF [''BEGIN:VEVENT'', ''UID:a'', ''SUMMARY:1'', ''END:VEVENT''],
      str_join CRLF [''BEGIN:VEVENT'', ''UID:b'', ''SUMMARY:2'', ''END:VEVENT''],
      str_join CRLF [''BEGIN:VEVENT'', ''UID:c'', ''SUMMARY:4'', ''END:VEVENT'']]"
    by code_simp
  with merge_keeps_first_occurrences [of
      "[Some (str_join CRLF
         [''BEGIN:VCALENDAR'',
          ''BEGIN:VEVENT'', ''UID:a'', ''SUMMARY:1'', ''END:VEVENT'',
          ''BEGIN:VEVENT'', ''UID:b'', ''SUMMARY:2'', ''END:VEVENT'',
          ''BEGIN:VEVENT'', ''UID:a'', ''SUMMARY:3'', ''END:VEVENT'',
          ''END:VCALENDAR'']),
       None,
       Some (str_join CRLF
         [''BEGIN:VCALENDAR'',
          ''BEGIN:VEVENT'', ''UID:c'', ''SUMMARY:4'', ''END:VEVENT'',
          ''BEGIN:VEVENT'', ''UID:b'', ''SUMMARY:5'', ''END:VEVENT'',
          ''END:VCALENDAR''])]"]
  show ?thesis by (simp only:)
qed

text \<open>
  A block starting on the first day of the window is kept; one with the same identity
  starting on the end boundary is dropped and registers nothing.
\<close>

theorem pjm_window_boundaries_witness:
  "pjm_step ''20260101'' ''20260401'' ({}, [])
      (str_join CRLF [''BEGIN:VEVENT'', ''UID:a'', ''DTSTART:20260101T090000'', ''END:VEVENT''])
     = ({''a''}, [str_join CRLF [''BEGIN:VEVENT'', ''UID:a'', ''DTSTART:20260101T090000'', ''END:VEVENT'']])
   \<and> pjm_step ''20260101'' ''20260401'' ({}, [])
      (str_join CRLF [''BEGIN:VEVENT'', ''UID:a'', ''DTSTART;VALUE=DATE:20260401'', ''END:VEVENT''])
     = ({}, [])"
proof -
  have u1: "extract_uid (str_join CRLF [''BEGIN:VEVENT'', ''UID:a'', ''DTSTART:20260101T090000'', ''END:VEVENT'']) = Some ''a''"
    and d1: "extract_dtstart_date (str_join CRLF [''BEGIN:VEVENT'', ''UID:a'', ''DTSTART:20260101T090000'', ''END:VEVENT'']) = Some ''20260101''"
    and u2: "extract_uid (str_join CRLF [''BEGIN:VEVENT'', ''UID:a'', ''DTSTART;VALUE=DATE:20260401'', ''END:VEVENT'']) = Some ''a''"
    and d2: "extract_dtstart_date (str_join CRLF [''BEGIN:VEVENT'', ''UID:a'', ''DTSTART;VALUE=DATE:20260401'', ''END:VEVENT'']) = Some ''20260401''"
    by code_simp+
  have lt: "''20260101'' < ''20260401''" and ne: "''a'' \<noteq> []" and ns: "''a'' \<notin> {}"
    by simp_all
  from pjm_window_boundaries [OF u1 ne ns d1, where s = "''20260101''" and e = "''20260401''"
      and all = "[]"]
    pjm_window_boundaries [OF u2 ne ns d2, where s = "''20260101''" and e = "''20260401''"
      and all = "[]"] lt
  show ?thesis by simp
qed

text \<open>
  A holiday entry without DTSTART is kept; a dated entry before the window is dropped.
\<close>

theorem pjm_undated_block_kept_witness:
  "pjm_step ''20260101'' ''20260401'' ({}, [])
      (str_join CRLF [''BEGIN:VEVENT'', ''UID:h1'', ''SUMMARY:Holiday'', ''END:VEVENT''])
     = ({''h1''}, [str_join CRLF [''BEGIN:VEVENT'', ''UID:h1'', ''SUMMARY:Holiday'', ''END:VEVENT'']])
   \<and> sublist (str_join CRLF [''BEGIN:VEVENT'', ''UID:h1'', ''SUMMARY:Holiday'', ''END:VEVENT''])
      (pjm_build_merged_ics (snd (foldl (pjm_step ''20260101'' ''20260401'') ({}, [])
         [str_join CRLF [''BEGIN:VEVENT'', ''UID:h1'', ''SUMMARY:Holiday'', ''END:VEVENT'']])))
   \<and> pjm_step ''20260101'' ''20260401'' ({}, [])
      (str_join CRLF [''BEGIN:VEVENT'', ''UID:h2'', ''DTSTART:20251231T090000'', ''END:VEVENT''])
     = ({}, [])"
proof -
  have u1: "extract_uid (str_join CRLF [''BEGIN:VEVENT'', ''UID:h1'', ''SUMMARY:Holiday'', ''END:VEVENT'']) = Some ''h1''"
    and d1: "extract_dtstart_date (str_join CRLF [''BEGIN:VEVENT'', ''UID:h1'', ''SUMMARY:Holiday'', ''END:VEVENT'']) = None"
    and d2: "extract_dtstart_date (str_join CRLF [''BEGIN:VEVENT'', ''UID:h2'', ''DTSTART:20251231T090000'', ''END:VEVENT'']) = Some ''20251231''"
    by code_simp+
  have out: "\<not> (''20260101'' \<le> ''20251231'' \<and> ''20251231'' < ''20260401'')"
    and ne: "''h1'' \<noteq> []" and ns: "''h1'' \<notin> {}"
    by simp_all
  note kept = pjm_undated_block_kept [OF u1 ne ns d1, where s = "''20260101''"
      and e = "''20260401''" and all = "[]" and ves = "[]"]
  from kept have a: "pjm_step ''20260101'' ''20260401'' ({}, [])
      (str_join CRLF [''BEGIN:VEVENT'', ''UID:h1'', ''SUMMARY:Holiday'', ''END:VEVENT''])
     = ({''h1''}, [] @ [str_join CRLF [''BEGIN:VEVENT'', ''UID:h1'', ''SUMMARY:Holiday'', ''END:VEVENT'']])"
    by (rule conjunct1)
  from kept d2 out show ?thesis
    unfolding a [unfolded append_Nil] by blast
qed

section \<open>Properties of the document builder\<close>

lemma str_join_Cons: "xs \<noteq> [] \<Longrightarrow> str_join sep (x # xs) = x @ sep @ str_join sep xs"
  by (cases xs) simp_all

lemma str_join_snoc: "xs \<noteq> [] \<Longrightarrow> str_join sep (xs @ [y]) = str_join sep xs @ sep @ y"
  by (induction sep xs rule: str_join.induct) simp_all

text \<open>
  C4. The CAISO document is the seven header lines in their fixed order, each followed by
  CRLF, the event blocks joined by CRLF, CRLF, the calendar end marker and a last CRLF.
  For a non-empty sequence of event blocks the NYISO document is the same with its own
  header values and, when a timezone block is present (\<open>if vtimezone\<close>: not \<open>None\<close>, not
  empty), that block and CRLF after the header. Both builders are functions of their
  arguments alone: they read no clock and no unordered container, so equal inputs give
  the same text.
\<close>

theorem build_merged_ics_layout:
  "caiso_build_merged_ics vevents =
     ''BEGIN:VCALENDAR'' @ CRLF @ ''VERSION:2.0'' @ CRLF @
     ''PRODID:-//CAISO Calendar Sync//EN'' @ CRLF @ ''CALSCALE:GREGORIAN'' @ CRLF @
     ''METHOD:PUBLISH'' @ CRLF @ ''X-WR-CALNAME:CAISO Events'' @ CRLF @
     ''X-WR-TIMEZONE:America/Los_Angeles'' @ CRLF @
     str_join CRLF vevents @ CRLF @ ''END:VCALENDAR'' @ CRLF
   \<and> (vevents \<noteq> [] \<longrightarrow>
      nyiso_build_merged_ics vevents vtimezone =
        ''BEGIN:VCALENDAR'' @ CRLF @ ''VERSION:2.0'' @ CRLF @
        ''PRODID:-//NYISO Calendar Sync//EN'' @ CRLF @ ''CALSCALE:GREGORIAN'' @ CRLF @
        ''METHOD:PUBLISH'' @ CRLF @ ''X-WR-CALNAME:NYISO Events'' @ CRLF @
        ''X-WR-TIMEZONE:America/New_York'' @ CRLF @
        (if truthy vtimezone then the vtimezone @ CRLF else []) @
        str_join CRLF vevents @ CRLF @ ''END:VCALENDAR'' @ CRLF)"
proof -
  have caiso: "caiso_build_merged_ics vevents =
     ''BEGIN:VCALENDAR'' @ CRLF @ ''VERSION:2.0'' @ CRLF @
     ''PRODID:-//CAISO Calendar Sync//EN'' @ CRLF @ ''CALSCALE:GREGORIAN'' @ CRLF @
     ''METHOD:PUBLISH'' @ CRLF @ ''X-WR-CALNAME:CAISO Events'' @ CRLF @
     ''X-WR-TIMEZONE:America/Los_Angeles'' @ CRLF @
     str_join CRLF vevents @ CRLF @ ''END:VCALENDAR'' @ CRLF"
    by (simp add: caiso_build_merged_ics_def)
  have parts: "str_join CRLF (h # tz @ vevents @ [f]) =
      h @ CRLF @ (if tz = [] then [] else str_join CRLF tz @ CRLF) @ str_join CRLF vevents @ CRLF @ f"
    if "vevents \<noteq> []" for h tz f
  proof -
    have "str_join CRLF ((tz @ vevents) @ [f]) = str_join CRLF (tz @ vevents) @ CRLF @ f"
      using that by (intro str_join_snoc) simp
    moreover have "str_join CRLF (tz @ vevents) =
        (if tz = [] then [] else str_join CRLF tz @ CRLF) @ str_join CRLF vevents"
      using that by (induction CRLF tz rule: str_join.induct) (simp_all add: str_join_Cons)
    ultimately show ?thesis
      using that by (simp add: str_join_Cons)
  qed
  have nyiso: "nyiso_build_merged_ics vevents vtimezone =
        ''BEGIN:VCALENDAR'' @ CRLF @ ''VERSION:2.0'' @ CRLF @
        ''PRODID:-//NYISO Calendar Sync//EN'' @ CRLF @ ''CALSCALE:GREGORIAN'' @ CRLF @
        ''METHOD:PUBLISH'' @ CRLF @ ''X-WR-CALNAME:NYISO Events'' @ CRLF @
        ''X-WR-TIMEZONE:America/New_York'' @ CRLF @
        (if truthy vtimezone then the vtimezone @ CRLF else []) @
        str_join CRLF vevents @ CRLF @ ''END:VCALENDAR'' @ CRLF"
    if "vevents \<noteq> []"
    using parts [OF that, of _ "if truthy vtimezone then [the vtimezone] else []"]
    by (simp add: nyiso_build_merged_ics_def)
  from caiso nyiso show ?thesis by blast
qed


text \<open>
  Two event blocks with a timezone block, and one event block without: the documents,
  line by line (the empty last line stands for the trailing CRLF).
\<close>

theorem build_merged_ics_layout_witness:
  "nyiso_build_merged_ics
      [str_join CRLF [''BEGIN:VEVENT'', ''UID:1'', ''END:VEVENT''],
       str_join CRLF [''BEGIN:VEVENT'', ''UID:2'', ''END:VEVENT'']]
      (Some (str_join CRLF [''BEGIN:VTIMEZONE'', ''TZID:America/New_York'', ''END:VTIMEZONE'']))
     = str_join CRLF
         [''BEGIN:VCALENDAR'', ''VERSION:2.0'', ''PRODID:-//NYISO Calendar Sync//EN'',
          ''CALSCALE:GREGORIAN'', ''METHOD:PUBLISH'', ''X-WR-CALNAME:NYISO Events'',
          ''X-WR-TIMEZONE:America/New_York'',
          ''BEGIN:VTIMEZONE'', ''TZID:America/New_York'', ''END:VTIMEZONE'',
          ''BEGIN:VEVENT'', ''UID:1'', ''END:VEVENT'',
          ''BEGIN:VEVENT'', ''UID:2'', ''END:VEVENT'',
          ''END:VCALENDAR'', []]
   \<and> nyiso_build_merged_ics [str_join CRLF [''BEGIN:VEVENT'', ''UID:1'', ''END:VEVENT'']] None
     = str_join CRLF
         [''BEGIN:VCALENDAR'', ''VERSION:2.0'', ''PRODID:-//NYISO Calendar Sync//EN'',
          ''CALSCALE:GREGORIAN'', ''METHOD:PUBLISH'', ''X-WR-CALNAME:NYISO Events'',
          ''X-WR-TIMEZONE:America/New_York'',
          ''BEGIN:VEVENT'', ''UID:1'', ''END:VEVENT'',
          ''END:VCALENDAR'', []]"
  using
    build_merged_ics_layout [of
      "[str_join CRLF [''BEGIN:VEVENT'', ''UID:1'', ''END:VEVENT''],
        str_join CRLF [''BEGIN:VEVENT'', ''UID:2'', ''END:VEVENT'']]"
      "Some (str_join CRLF [''BEGIN:VTIMEZONE'', ''TZID:America/New_York'', ''END:VTIMEZONE''])"]
    build_merged_ics_layout [of
      "[str_join CRLF [''BEGIN:VEVENT'', ''UID:1'', ''END:VEVENT'']]" None]
  by (simp add: truthy_def)

section \<open>Properties of the validator\<close>

lemma digit_char: "n < 10 \<Longrightarrow> is_digit (''0123456789'' ! n)"
proof -
  assume "n < 10"
  then have "''0123456789'' ! n \<in> set ''0123456789''"
    by (intro nth_mem) simp
  moreover have "\<forall>c\<in>set ''0123456789''. is_digit c"
    by (simp add: is_digit_def)
  ultimately show ?thesis by blast
qed

lemma str_of_nat_head: "\<exists>d ds. str_of_nat n = d # ds \<and> is_digit d"
proof (induction n rule: str_of_nat.induct)
  case (1 n)
  show ?case
  proof (cases "n < 10")
    case True
    then show ?thesis
      by (subst str_of_nat.simps) (simp add: digit_char)
  next
    case False
    with 1 obtain d ds where "str_of_nat (n div 10) = d # ds" "is_digit d" by blast
    with False show ?thesis
      by (subst str_of_nat.simps) simp
  qed
qed

lemma digit_head_neq: "is_digit (hd a) \<Longrightarrow> \<not> is_digit (hd b) \<Longrightarrow> a \<noteq> b"
  by auto

lemma if_snoc: "(if c then xs @ [x] else xs) = xs @ (if c then [x] else [])"
  by simp

lemma issues_concat:
  "issues text =
     (if \<not> has_vcal_start text then [''missing BEGIN:VCALENDAR''] else []) @
     (if \<not> has_vcal_end text then [''missing END:VCALENDAR''] else []) @
     (if \<not> has_version text then [''missing VERSION:2.0''] else []) @
     (if \<not> has_prodid text then [''missing PRODID''] else []) @
     (if events text \<noteq> events_end text
      then [''VEVENT mismatch: '' @ str_of_nat (events text) @ '' begin vs '' @
            str_of_nat (events_end text) @ '' end'']
      else []) @
     (if missing_dtstart text \<noteq> 0
      then [str_of_nat (missing_dtstart text) @ '' events missing DTSTART''] else []) @
     (if missing_summary text \<noteq> 0
      then [str_of_nat (missing_summary text) @ '' events missing SUMMARY''] else [])"
  unfolding issues_def Let_def if_snoc by (simp only: append_Nil append_assoc)

lemma validator_checks:
  "(status text = ''PASS'' \<longleftrightarrow>
      events text = events_end text \<and> has_vcal_start text \<and> has_vcal_end text \<and>
      has_version text \<and> has_prodid text \<and> missing_dtstart text = 0 \<and> missing_summary text = 0)
   \<and> (status text \<noteq> ''PASS'' \<longrightarrow> status text = ''FAIL'' \<and> issues text \<noteq> [])
   \<and> length (issues text) =
       length (filter Not [has_vcal_start text, has_vcal_end text, has_version text,
         has_prodid text, events text = events_end text, missing_dtstart text = 0,
         missing_summary text = 0])
   \<and> (''missing BEGIN:VCALENDAR'' \<in> set (issues text) \<longleftrightarrow> \<not> has_vcal_start text)
   \<and> (''missing END:VCALENDAR'' \<in> set (issues text) \<longleftrightarrow> \<not> has_vcal_end text)
   \<and> (''missing VERSION:2.0'' \<in> set (issues text) \<longleftrightarrow> \<not> has_version text)
   \<and> (''missing PRODID'' \<in> set (issues text) \<longleftrightarrow> \<not> has_prodid text)
   \<and> (''VEVENT mismatch: '' @ str_of_nat (events text) @ '' begin vs '' @
        str_of_nat (events_end text) @ '' end'' \<in> set (issues text) \<longleftrightarrow>
      events text \<noteq> events_end text)
   \<and> (str_of_nat (missing_dtstart text) @ '' events missing DTSTART'' \<in> set (issues text) \<longleftrightarrow>
      missing_dtstart text \<noteq> 0)
   \<and> (str_of_nat (missing_summary text) @ '' events missing SUMMARY'' \<in> set (issues text) \<longleftrightarrow>
      missing_summary text \<noteq> 0)
   \<and> detail text = str_join '' | '' (issues text)"
proof -
  define s5 where "s5 = ''VEVENT mismatch: '' @ str_of_nat (events text) @ '' begin vs '' @
        str_of_nat (events_end text) @ '' end''"
  define s6 where "s6 = str_of_nat (missing_dtstart text) @ '' events missing DTSTART''"
  define s7 where "s7 = str_of_nat (missing_summary text) @ '' events missing SUMMARY''"
  obtain d1 ds1 where n1: "str_of_nat (missing_dtstart text) = d1 # ds1" "is_digit d1"
    using str_of_nat_head by blast
  obtain d2 ds2 where n2: "str_of_nat (missing_summary text) = d2 # ds2" "is_digit d2"
    using str_of_nat_head by blast
  have dg: "is_digit (hd s6)" "is_digit (hd s7)"
    by (simp_all add: s6_def s7_def n1 n2)
  have d5: "s5 \<noteq> ''missing BEGIN:VCALENDAR''" "s5 \<noteq> ''missing END:VCALENDAR''"
    "s5 \<noteq> ''missing VERSION:2.0''" "s5 \<noteq> ''missing PRODID''"
    by (simp_all add: s5_def)
  have nd: "\<not> is_digit (hd ''missing BEGIN:VCALENDAR'')" "\<not> is_digit (hd ''missing END:VCALENDAR'')"
    "\<not> is_digit (hd ''missing VERSION:2.0'')" "\<not> is_digit (hd ''missing PRODID'')"
    "\<not> is_digit (hd s5)"
    by (simp_all add: s5_def is_digit_def)
  have d6: "s6 \<noteq> ''missing BEGIN:VCALENDAR''" "s6 \<noteq> ''missing END:VCALENDAR''"
    "s6 \<noteq> ''missing VERSION:2.0''" "s6 \<noteq> ''missing PRODID''" "s6 \<noteq> s5"
    using dg(1) nd by (blast intro: digit_head_neq)+
  have d7: "s7 \<noteq> ''missing BEGIN:VCALENDAR''" "s7 \<noteq> ''missing END:VCALENDAR''"
    "s7 \<noteq> ''missing VERSION:2.0''" "s7 \<noteq> ''missing PRODID''" "s7 \<noteq> s5"
    using dg(2) nd by (blast intro: digit_head_neq)+
  have d67: "s6 \<noteq> s7"
  proof
    assume "s6 = s7"
    then have "last s6 = last s7" by simp
    then show False by (simp add: s6_def s7_def)
  qed
  note dist = d5 d6 d7 d67 d5 [symmetric] d6 [symmetric] d7 [symmetric] d67 [symmetric]
  have ic: "issues text =
     (if \<not> has_vcal_start text then [''missing BEGIN:VCALENDAR''] else []) @
     (if \<not> has_vcal_end text then [''missing END:VCALENDAR''] else []) @
     (if \<not> has_version text then [''missing VERSION:2.0''] else []) @
     (if \<not> has_prodid text then [''missing PRODID''] else []) @
     (if events text \<noteq> events_end text then [s5] else []) @
     (if missing_dtstart text \<noteq> 0 then [s6] else []) @
     (if missing_summary text \<noteq> 0 then [s7] else [])"
    unfolding s5_def s6_def s7_def by (rule issues_concat)
  have pass: "status text = ''PASS'' \<longleftrightarrow> issues text = []"
    by (simp add: status_def)
  have fail: "status text \<noteq> ''PASS'' \<longrightarrow> status text = ''FAIL'' \<and> issues text \<noteq> []"
    by (simp add: status_def)
  have det: "detail text = str_join '' | '' (issues text)"
    by (simp add: detail_def)
  have empty: "issues text = [] \<longleftrightarrow>
      events text = events_end text \<and> has_vcal_start text \<and> has_vcal_end text \<and>
      has_version text \<and> has_prodid text \<and> missing_dtstart text = 0 \<and> missing_summary text = 0"
    unfolding ic by auto
  have len: "length (issues text) =
       length (filter Not [has_vcal_start text, has_vcal_end text, has_version text,
         has_prodid text, events text = events_end text, missing_dtstart text = 0,
         missing_summary text = 0])"
    unfolding ic by simp
  have m1: "''missing BEGIN:VCALENDAR'' \<in> set (issues text) \<longleftrightarrow> \<not> has_vcal_start text"
    unfolding ic by (simp add: dist)
  have m2: "''missing END:VCALENDAR'' \<in> set (issues text) \<longleftrightarrow> \<not> has_vcal_end text"
    unfolding ic by (simp add: dist)
  have m3: "''missing VERSION:2.0'' \<in> set (issues text) \<longleftrightarrow> \<not> has_version text"
    unfolding ic by (simp add: dist)
  have m4: "''missing PRODID'' \<in> set (issues text) \<longleftrightarrow> \<not> has_prodid text"
    unfolding ic by (simp add: dist)
  have m5: "s5 \<in> set (issues text) \<longleftrightarrow> events text \<noteq> events_end text"
    unfolding ic by (simp add: dist)
  have m6: "s6 \<in> set (issues text) \<longleftrightarrow> missing_dtstart text \<noteq> 0"
    unfolding ic by (simp add: dist)
  have m7: "s7 \<in> set (issues text) \<longleftrightarrow> missing_summary text \<noteq> 0"
    unfolding ic by (simp add: dist)
  have verdict: "status text = ''PASS'' \<longleftrightarrow>
      events text = events_end text \<and> has_vcal_start text \<and> has_vcal_end text \<and>
      has_version text \<and> has_prodid text \<and> missing_dtstart text = 0 \<and> missing_summary text = 0"
    by (simp only: pass empty)
  note m5' = m5 [unfolded s5_def] and m6' = m6 [unfolded s6_def] and m7' = m7 [unfolded s7_def]
  show ?thesis
    by (intro conjI) (rule verdict fail len m1 m2 m3 m4 m5' m6' m7' det)+
qed


lemma no_missing_iff: "length (filter (\<lambda>v. \<not> P v) xs) = 0 \<longleftrightarrow> list_all P xs"
  by (simp add: list_all_iff filter_empty_conv)

text \<open>
  C3 (as amended). The verdict is PASS exactly when the text has as many occurrences of
  \<open>BEGIN:VEVENT\<close> as of \<open>END:VEVENT\<close>, its trimmed form starts with \<open>BEGIN:VCALENDAR\<close> and
  ends with \<open>END:VCALENDAR\<close>, \<open>VERSION:2.0\<close> and \<open>PRODID:\<close> occur in it, and every match of
  the block pattern contains \<open>DTSTART\<close> and contains \<open>SUMMARY\<close> somewhere; otherwise it
  is FAIL and the issue list is not empty. The list has one string per failed check,
  each of the seven strings is in it exactly when its check failed, with the two counts
  and the numbers of matches without \<open>DTSTART\<close> and without \<open>SUMMARY\<close> written in decimal,
  and the detail line is the issues joined by \<open>" | "\<close>.
\<close>

theorem validator_verdict:
  "(status text = ''PASS'' \<longleftrightarrow>
      str_count ''BEGIN:VEVENT'' text = str_count ''END:VEVENT'' text \<and>
      prefix ''BEGIN:VCALENDAR'' (str_strip text) \<and>
      suffix ''END:VCALENDAR'' (str_strip text) \<and>
      sublist ''VERSION:2.0'' text \<and> sublist ''PRODID:'' text \<and>
      list_all (sublist ''DTSTART'') (re_findall_vevent text) \<and>
      list_all (sublist ''SUMMARY'') (re_findall_vevent text))
   \<and> (status text \<noteq> ''PASS'' \<longrightarrow> status text = ''FAIL'' \<and> issues text \<noteq> [])
   \<and> length (issues text) =
       length (filter Not
         [prefix ''BEGIN:VCALENDAR'' (str_strip text),
          suffix ''END:VCALENDAR'' (str_strip text),
          sublist ''VERSION:2.0'' text,
          sublist ''PRODID:'' text,
          str_count ''BEGIN:VEVENT'' text = str_count ''END:VEVENT'' text,
          list_all (sublist ''DTSTART'') (re_findall_vevent text),
          list_all (sublist ''SUMMARY'') (re_findall_vevent text)])
   \<and> (''missing BEGIN:VCALENDAR'' \<in> set (issues text) \<longleftrightarrow>
        \<not> prefix ''BEGIN:VCALENDAR'' (str_strip text))
   \<and> (''missing END:VCALENDAR'' \<in> set (issues text) \<longleftrightarrow>
        \<not> suffix ''END:VCALENDAR'' (str_strip text))
   \<and> (''missing VERSION:2.0'' \<in> set (issues text) \<longleftrightarrow> \<not> sublist ''VERSION:2.0'' text)
   \<and> (''missing PRODID'' \<in> set (issues text) \<longleftrightarrow> \<not> sublist ''PRODID:'' text)
   \<and> (''VEVENT mismatch: '' @ str_of_nat (str_count ''BEGIN:VEVENT'' text) @ '' begin vs '' @
        str_of_nat (str_count ''END:VEVENT'' text) @ '' end'' \<in> set (issues text) \<longleftrightarrow>
      str_count ''BEGIN:VEVENT'' text \<noteq> str_count ''END:VEVENT'' text)
   \<and> (str_of_nat (length (filter (\<lambda>v. \<not> sublist ''DTSTART'' v) (re_findall_vevent text))) @
        '' events missing DTSTART'' \<in> set (issues text) \<longleftrightarrow>
      \<not> list_all (sublist ''DTSTART'') (re_findall_vevent text))
   \<and> (str_of_nat (length (filter (\<lambda>v. \<not> sublist ''SUMMARY'' v) (re_findall_vevent text))) @
        '' events missing SUMMARY'' \<in> set (issues text) \<longleftrightarrow>
      \<not> list_all (sublist ''SUMMARY'') (re_findall_vevent text))
   \<and> detail text = str_join '' | '' (issues text)"
proof -
  have md: "missing_dtstart text =
      length (filter (\<lambda>v. \<not> sublist ''DTSTART'' v) (re_findall_vevent text))"
    and ms: "missing_summary text =
      length (filter (\<lambda>v. \<not> sublist ''SUMMARY'' v) (re_findall_vevent text))"
    by (simp_all add: missing_dtstart_def missing_summary_def vevent_blocks_def)
  have zd: "missing_dtstart text = 0 \<longleftrightarrow> list_all (sublist ''DTSTART'') (re_findall_vevent text)"
    and zs: "missing_summary text = 0 \<longleftrightarrow> list_all (sublist ''SUMMARY'') (re_findall_vevent text)"
    unfolding md ms by (rule no_missing_iff)+
  note checks = validator_checks [of "text"]
  show ?thesis
    using checks
    unfolding zd zs
    unfolding md ms events_def events_end_def has_vcal_start_def has_vcal_end_def
      has_version_def has_prodid_def
    by blast
qed

text \<open>
  With LF line endings, as the validator reads them: a document with a timezone block
  and two event blocks passes; without the summary of the second block it fails with
  \<open>1 events missing SUMMARY\<close>; two begin markers and one end marker give
  \<open>VEVENT mismatch: 2 begin vs 1 end\<close>.
\<close>

theorem validator_verdict_witness:
  "status (str_join [LF]
      [''BEGIN:VCALENDAR'', ''VERSION:2.0'', ''PRODID:-//X//EN'',
       ''BEGIN:VTIMEZONE'', ''TZID:America/Chicago'', ''END:VTIMEZONE'',
       ''BEGIN:VEVENT'', ''DTSTART:20260101T090000Z'', ''SUMMARY:a'', ''END:VEVENT'',
       ''BEGIN:VEVENT'', ''DTSTART:20260102T090000Z'', ''SUMMARY:b'', ''END:VEVENT'',
       ''END:VCALENDAR'', []]) = ''PASS''
   \<and> status (str_join [LF]
      [''BEGIN:VCALENDAR'', ''VERSION:2.0'', ''PRODID:-//X//EN'',
       ''BEGIN:VTIMEZONE'', ''TZID:America/Chicago'', ''END:VTIMEZONE'',
       ''BEGIN:VEVENT'', ''DTSTART:20260101T090000Z'', ''SUMMARY:a'', ''END:VEVENT'',
       ''BEGIN:VEVENT'', ''DTSTART:20260102T090000Z'', ''END:VEVENT'',
       ''END:VCALENDAR'', []]) = ''FAIL''
   \<and> ''1 events missing SUMMARY'' \<in> set (issues (str_join [LF]
      [''BEGIN:VCALENDAR'', ''VERSION:2.0'', ''PRODID:-//X//EN'',
       ''BEGIN:VTIMEZONE'', ''TZID:America/Chicago'', ''END:VTIMEZONE'',
       ''BEGIN:VEVENT'', ''DTSTART:20260101T090000Z'', ''SUMMARY:a'', ''END:VEVENT'',
       ''BEGIN:VEVENT'', ''DTSTART:20260102T090000Z'', ''END:VEVENT'',
       ''END:VCALENDAR'', []]))
   \<and> ''VEVENT mismatch: 2 begin vs 1 end'' \<in> set (issues (str_join [LF]
      [''BEGIN:VEVENT'', ''BEGIN:VEVENT'', ''END:VEVENT'']))"
proof -
  let ?ok = "str_join [LF]
      [''BEGIN:VCALENDAR'', ''VERSION:2.0'', ''PRODID:-//X//EN'',
       ''BEGIN:VTIMEZONE'', ''TZID:America/Chicago'', ''END:VTIMEZONE'',
       ''BEGIN:VEVENT'', ''DTSTART:20260101T090000Z'', ''SUMMARY:a'', ''END:VEVENT'',
       ''BEGIN:VEVENT'', ''DTSTART:20260102T090000Z'', ''SUMMARY:b'', ''END:VEVENT'',
       ''END:VCALENDAR'', []]"
  let ?nosum = "str_join [LF]
      [''BEGIN:VCALENDAR'', ''VERSION:2.0'', ''PRODID:-//X//EN'',
       ''BEGIN:VTIMEZONE'', ''TZID:America/Chicago'', ''END:VTIMEZONE'',
       ''BEGIN:VEVENT'', ''DTSTART:20260101T090000Z'', ''SUMMARY:a'', ''END:VEVENT'',
       ''BEGIN:VEVENT'', ''DTSTART:20260102T090000Z'', ''END:VEVENT'',
       ''END:VCALENDAR'', []]"
  let ?mis = "str_join [LF] [''BEGIN:VEVENT'', ''BEGIN:VEVENT'', ''END:VEVENT'']"
  have ok: "str_count ''BEGIN:VEVENT'' ?ok = str_count ''END:VEVENT'' ?ok"
    "prefix ''BEGIN:VCALENDAR'' (str_strip ?ok)" "suffix ''END:VCALENDAR'' (str_strip ?ok)"
    "sublist ''VERSION:2.0'' ?ok" "sublist ''PRODID:'' ?ok"
    "list_all (sublist ''DTSTART'') (re_findall_vevent ?ok)"
    "list_all (sublist ''SUMMARY'') (re_findall_vevent ?ok)"
    by code_simp+
  have nosum: "length (filter (\<lambda>v. \<not> sublist ''SUMMARY'' v) (re_findall_vevent ?nosum)) = 1"
    "\<not> list_all (sublist ''SUMMARY'') (re_findall_vevent ?nosum)"
    by code_simp+
  have mis: "str_count ''BEGIN:VEVENT'' ?mis = 2" "str_count ''END:VEVENT'' ?mis = 1"
    by code_simp+
  have num: "str_of_nat 1 = ''1''" "str_of_nat 2 = ''2''"
    by code_simp+
  have a: "status ?ok = ''PASS''"
    using validator_verdict [of ?ok] ok by blast
  have b: "status ?nosum = ''FAIL''"
    and c: "str_of_nat (length (filter (\<lambda>v. \<not> sublist ''SUMMARY'' v) (re_findall_vevent ?nosum))) @
        '' events missing SUMMARY'' \<in> set (issues ?nosum)"
    using validator_verdict [of ?nosum] nosum(2) by blast+
  have d: "''VEVENT mismatch: '' @ str_of_nat (str_count ''BEGIN:VEVENT'' ?mis) @ '' begin vs '' @
        str_of_nat (str_count ''END:VEVENT'' ?mis) @ '' end'' \<in> set (issues ?mis)"
    using validator_verdict [of ?mis] mis by simp
  from a b c d show ?thesis
    unfolding nosum(1) mis num by simp
qed

text \<open>
  The only event block of this document has neither a DTSTART property nor a SUMMARY
  property; its description mentions both words, and the verdict is PASS.
\<close>

theorem validator_passes_without_fields:
  "status (str_join [LF]
      [''BEGIN:VCALENDAR'', ''VERSION:2.0'', ''PRODID:-//X//EN'',
       ''BEGIN:VEVENT'', ''UID:1'', ''DESCRIPTION:DTSTART and SUMMARY to follow'', ''END:VEVENT'',
       ''END:VCALENDAR'', []]) = ''PASS''
   \<and> extract_vevents (str_join [LF]
      [''BEGIN:VCALENDAR'', ''VERSION:2.0'', ''PRODID:-//X//EN'',
       ''BEGIN:VEVENT'', ''UID:1'', ''DESCRIPTION:DTSTART and SUMMARY to follow'', ''END:VEVENT'',
       ''END:VCALENDAR'', []])
     = [str_join CRLF
         [''BEGIN:VEVENT'', ''UID:1'', ''DESCRIPTION:DTSTART and SUMMARY to follow'',
          ''END:VEVENT'']]
   \<and> vevent_blocks (str_join [LF]
      [''BEGIN:VCALENDAR'', ''VERSION:2.0'', ''PRODID:-//X//EN'',
       ''BEGIN:VEVENT'', ''UID:1'', ''DESCRIPTION:DTSTART and SUMMARY to follow'', ''END:VEVENT'',
       ''END:VCALENDAR'', []])
     = [str_join [LF]
         [''BEGIN:VEVENT'', ''UID:1'', ''DESCRIPTION:DTSTART and SUMMARY to follow'',
          ''END:VEVENT'']]
   \<and> \<not> has_property ''DTSTART'' (str_join [LF]
         [''BEGIN:VEVENT'', ''UID:1'', ''DESCRIPTION:DTSTART and SUMMARY to follow'',
          ''END:VEVENT''])
   \<and> \<not> has_property ''SUMMARY'' (str_join [LF]
         [''BEGIN:VEVENT'', ''UID:1'', ''DESCRIPTION:DTSTART and SUMMARY to follow'',
          ''END:VEVENT''])"
  by code_simp

section \<open>Properties of the JSON adapters\<close>

lemma str_split_not_Nil: "str_split sep s \<noteq> []"
  by (induction sep s rule: str_split.induct) (auto split: list.splits)

lemma hd_str_split_single: "hd (str_split [c] s) = takeWhile (\<lambda>x. x \<noteq> c) s"
proof (induction s)
  case Nil
  show ?case by simp
next
  case (Cons x xs)
  obtain l ls where "str_split [c] xs = l # ls"
    using str_split_not_Nil [of "[c]" xs] by (cases "str_split [c] xs") auto
  with Cons.IH show ?case by auto
qed

lemma str_replace_delete: "str_replace [c] [] s = filter (\<lambda>x. x \<noteq> c) s"
  unfolding str_replace_single by (induction s) auto

lemma str_replace_same: "str_replace [c] [c] s = s"
  unfolding str_replace_single by (induction s) auto

lemma parse_dt_filter:
  "parse_dt s = filter (\<lambda>c. c \<noteq> CHR ''-'' \<and> c \<noteq> CHR '':'') (takeWhile (\<lambda>c. c \<noteq> CHR ''.'') s)"
  by (simp add: parse_dt_def hd_str_split_single str_replace_delete str_replace_same conj_commute)

lemma isone_dt_filter:
  "isone_dt s = filter (\<lambda>c. c \<noteq> CHR ''-'' \<and> c \<noteq> CHR '':'') s @ ''Z''"
  by (simp add: isone_dt_def str_replace_delete str_replace_same conj_commute)

text \<open>
  C7. Fractional seconds of a source timestamp are to be discarded. \<open>parse_dt\<close> of SPP
  does so: its result never has a full stop. The conversion in the ISO-NE \<^verbatim>\<open>build_vevent\<close>
  does not: for the start \<open>2026-02-26T13:30:00.000\<close> it gives \<open>20260226T133000.000Z\<close>.
\<close>

theorem isone_fraction_not_discarded:
  "CHR ''.'' \<notin> set (parse_dt s)
   \<and> parse_dt ''2026-02-26T08:30:00.0000000'' = ''20260226T083000''
   \<and> isone_dt ''2026-02-26T13:30:00.000'' = ''20260226T133000.000Z''
   \<and> CHR ''.'' \<in> set (isone_dt ''2026-02-26T13:30:00.000'')"
proof -
  have "CHR ''.'' \<notin> set (takeWhile (\<lambda>c. c \<noteq> CHR ''.'') s)"
    by (auto dest: set_takeWhileD)
  then have "CHR ''.'' \<notin> set (parse_dt s)"
    by (simp add: parse_dt_filter)
  moreover have "parse_dt ''2026-02-26T08:30:00.0000000'' = ''20260226T083000''"
    "isone_dt ''2026-02-26T13:30:00.000'' = ''20260226T133000.000Z''"
    "CHR ''.'' \<in> set (isone_dt ''2026-02-26T13:30:00.000'')"
    by code_simp+
  ultimately show ?thesis by blast
qed

text \<open>
  The event block built from such an ISO-NE event carries the fraction in its DTSTART
  line.
\<close>

lemma isone_build_vevent_fraction:
  "isone_build_vevent ''20260101T000000Z'' (\<lambda>x. x)
       (map_of [(''event_id'', JInt 17), (''event_title'', JStr ''Meeting''),
                (''event_start_date_gmt_str'', JStr ''2026-02-26T13:30:00.000'')])
     = Inr (Some (str_join CRLF
         [''BEGIN:VEVENT'', ''UID:17@iso-ne.com'', ''DTSTAMP:20260101T000000Z'',
          ''DTSTART:20260226T133000.000Z'', ''SUMMARY:Meeting'',
          ''DESCRIPTION:https://www.iso-ne.com/event-details?eventId=17'',
          ''URL:https://www.iso-ne.com/event-details?eventId=17'', ''END:VEVENT'']))"
  by code_simp

text \<open>
  An ISO-NE event whose title is \<open>null\<close> is not skipped either: \<^verbatim>\<open>ics_escape(None)\<close> raises.
\<close>

lemma isone_build_vevent_null_title:
  "isone_build_vevent ''20260101T000000Z'' (\<lambda>x. x)
       (map_of [(''event_id'', JInt 17), (''event_title'', JNull),
                (''event_start_date_gmt_str'', JStr ''2026-02-26T13:30:00'')])
     = Inl AttributeError"
  by code_simp

lemma spp_build_vevent_no_id: "event ''id'' = None \<Longrightarrow> spp_build_vevent now event = Inl KeyError"
  by (simp add: spp_build_vevent_def dict_item_def bind_err_def)

lemma spp_collect_no_id:
  "event ''id'' = None \<Longrightarrow> spp_collect now vevents (event # rest) = Inl KeyError"
  by (simp add: spp_build_vevent_no_id bind_err_def)

lemma bind_err_Inr: "bind_err m f = Inr y \<longleftrightarrow> (\<exists>x. m = Inr x \<and> f x = Inr y)"
  by (cases m) (simp_all add: bind_err_def)

lemma isone_build_vevent_skip:
  "isone_build_vevent now strip_html event = Inr None \<longleftrightarrow>
     \<not> py_truthy (dict_get event ''event_start_date_gmt_str'' (JStr [])) \<or>
     \<not> py_truthy (dict_get event ''event_id'' (JStr []))"
  unfolding isone_build_vevent_def Let_def
  by (simp add: bind_err_Inr del: str_join.simps)

text \<open>
  C6. An SPP event without the key \<open>id\<close> raises \<open>KeyError\<close> in \<^verbatim>\<open>build_vevent\<close>: no record,
  no skip. The loop of \<^verbatim>\<open>main\<close> ends with that exception, also when the events before
  it were built.
\<close>

theorem spp_missing_id_raises:
  assumes "event ''id'' = None"
  shows "spp_build_vevent now event = Inl KeyError
       \<and> spp_collect now vevents (event # rest) = Inl KeyError
       \<and> (\<forall>good v. spp_build_vevent now good = Inr v \<longrightarrow>
             spp_collect now vevents (good # event # rest) = Inl KeyError)"
proof -
  have "spp_collect now vevents (good # event # rest) = Inl KeyError"
    if "spp_build_vevent now good = Inr v" for good v
    using that assms by (simp add: spp_build_vevent_no_id bind_err_def)
  then show ?thesis
    using assms by (simp add: spp_build_vevent_no_id bind_err_def)
qed

text \<open>
  An event with title and start and no \<open>id\<close>, after an event that is fine: the run ends
  with \<open>KeyError\<close>. An SPP event whose \<open>id\<close> is the empty string is not skipped, while the
  ISO-NE adapter skips an event without \<open>event_id\<close>.
\<close>

theorem spp_missing_id_raises_witness:
  "spp_build_vevent ''20260101T000000Z''
      (map_of [(''title'', JStr ''Board''), (''start'', JStr ''2026-02-26T08:30:00.0000000'')])
     = Inl KeyError
   \<and> spp_collect ''20260101T000000Z'' []
      [map_of [(''id'', JInt 1), (''title'', JStr ''Forum''), (''start'', JStr ''2026-02-25T09:00:00'')],
       map_of [(''title'', JStr ''Board''), (''start'', JStr ''2026-02-26T08:30:00.0000000'')]]
     = Inl KeyError
   \<and> spp_build_vevent ''20260101T000000Z''
      (map_of [(''id'', JStr []), (''title'', JStr ''Board''),
               (''start'', JStr ''2026-02-26T08:30:00.0000000'')])
     = Inr (str_join CRLF
         [''BEGIN:VEVENT'', ''UID:@spp.org'', ''DTSTAMP:20260101T000000Z'',
          ''DTSTART;TZID=America/Chicago:20260226T083000'', ''SUMMARY:Board'', ''END:VEVENT''])
   \<and> isone_build_vevent ''20260101T000000Z'' (\<lambda>x. x)
      (map_of [(''event_title'', JStr ''Board''),
               (''event_start_date_gmt_str'', JStr ''2026-02-26T13:30:00'')])
     = Inr None"
proof -
  have no_id: "map_of [(''title'', JStr ''Board''),
      (''start'', JStr ''2026-02-26T08:30:00.0000000'')] ''id'' = None"
    by simp
  have good: "spp_build_vevent ''20260101T000000Z''
      (map_of [(''id'', JInt 1), (''title'', JStr ''Forum''), (''start'', JStr ''2026-02-25T09:00:00'')])
     = Inr (str_join CRLF
         [''BEGIN:VEVENT'', ''UID:1@spp.org'', ''DTSTAMP:20260101T000000Z'',
          ''DTSTART;TZID=America/Chicago:20260225T090000'', ''SUMMARY:Forum'', ''END:VEVENT''])"
    by code_simp
  have others: "spp_build_vevent ''20260101T000000Z''
      (map_of [(''id'', JStr []), (''title'', JStr ''Board''),
               (''start'', JStr ''2026-02-26T08:30:00.0000000'')])
     = Inr (str_join CRLF
         [''BEGIN:VEVENT'', ''UID:@spp.org'', ''DTSTAMP:20260101T000000Z'',
          ''DTSTART;TZID=America/Chicago:20260226T083000'', ''SUMMARY:Board'', ''END:VEVENT''])"
    "isone_build_vevent ''20260101T000000Z'' (\<lambda>x. x)
      (map_of [(''event_title'', JStr ''Board''),
               (''event_start_date_gmt_str'', JStr ''2026-02-26T13:30:00'')])
     = Inr None"
    by code_simp+
  from spp_missing_id_raises [where event = "map_of [(''title'', JStr ''Board''),
        (''start'', JStr ''2026-02-26T08:30:00.0000000'')]"
      and now = "''20260101T000000Z''" and vevents = "[]" and rest = "[]", OF no_id] good others
  show ?thesis by blast
qed

end
